theory Spec2Isabelle
  imports Main "HOL-Library.Word" "HOL-Library.AList"
begin

section \<open>The siglum worker: package resolution and caching proxy\<close>

text \<open>
  A shallow embedding of the Cloudflare worker (index.ts): the three package-name
  handlers \<open>handleCtanFetch\<close>, \<open>handleTexLiveProxy\<close> and \<open>handleCtanPkgInfo\<close>, the two
  archive stages \<open>tryCtanTdsZip\<close> and \<open>tryCtanSourceZip\<close>, the decoder \<open>processZip\<close>
  and \<open>arrayBufferToBase64\<close>.

  Conventions of the embedding.
  \<^item> A \<open>Uint8Array\<close> is a list of 8-bit words. A JavaScript string is a \<open>string\<close>
    that holds the text in UTF-8, one character of the list for each byte: an ASCII
    character is itself, and no byte of another character is an ASCII one, so the
    searches, splits and patterns of the source, whose literals are all ASCII, find
    in the bytes what they find in the code units. \<open>TextDecoder\<close> is the UTF-8 decoder
    of the platform (invalid bytes become U+FFFD, a leading byte order mark is
    dropped), \<open>trim\<close> removes the white space of ECMAScript. \<open>toLowerCase\<close> maps the
    ASCII letters: it is only compared with the extension tables, and no other
    character is mapped by the source to a letter of these tables. The length of a
    string is taken of package names only, which the router cuts out of the path of
    a URL, where every character is ASCII. The binary string that is handed to
    \<open>btoa\<close> is the one exception: it has one character for each byte, with that code.
  \<^item> Each regular expression of the source is a recursive matcher that follows the
    expression from left to right, with its backtracking written out.
  \<^item> The network, the ZIP library and the object store are the environment: \<open>fetch\<close>
    and \<open>unzipSync\<close> are fields of a \<open>world\<close>, the R2 bucket is a map in the state,
    and every fetch, bucket read and bucket write is appended to a log.
  \<^item> An exception is the left summand of a sum type; every \<open>try\<close>/\<open>catch\<close> of the
    source is a case distinction on it.
\<close>

subsection \<open>Strings\<close>

text \<open>\<open>s.startsWith(p)\<close>.\<close>

fun startsWith :: "string \<Rightarrow> string \<Rightarrow> bool" where
  "startsWith s [] = True"
| "startsWith [] (p # ps) = False"
| "startsWith (c # cs) (p # ps) = (c = p \<and> startsWith cs ps)"

text \<open>\<open>s.includes(p)\<close>.\<close>

fun includes_str :: "string \<Rightarrow> string \<Rightarrow> bool" where
  "includes_str [] p = (p = [])"
| "includes_str (c # cs) p = (startsWith (c # cs) p \<or> includes_str cs p)"

text \<open>The rest of \<open>s\<close> behind the literal \<open>p\<close>, when \<open>s\<close> starts with it.\<close>

fun strip_prefix :: "string \<Rightarrow> string \<Rightarrow> string option" where
  "strip_prefix [] s = Some s"
| "strip_prefix (p # ps) [] = None"
| "strip_prefix (p # ps) (c # cs) = (if p = c then strip_prefix ps cs else None)"

text \<open>\<open>s.indexOf(p)\<close> and \<open>s.lastIndexOf(c)\<close>; \<open>None\<close> is the source's \<open>-1\<close>.\<close>

fun indexOf :: "string \<Rightarrow> string \<Rightarrow> nat option" where
  "indexOf [] p = (if p = [] then Some 0 else None)"
| "indexOf (c # cs) p =
     (if startsWith (c # cs) p then Some 0 else map_option Suc (indexOf cs p))"

fun lastIndexOf :: "string \<Rightarrow> char \<Rightarrow> nat option" where
  "lastIndexOf [] x = None"
| "lastIndexOf (c # cs) x =
     (case lastIndexOf cs x of
        Some i \<Rightarrow> Some (Suc i)
      | None \<Rightarrow> if c = x then Some 0 else None)"

text \<open>
  \<open>s.substring(a, b)\<close> and \<open>s.substring(a)\<close>. A negative index counts as 0, indices
  beyond the end as the length, and \<open>substring\<close> swaps its arguments when \<open>a > b\<close>.
\<close>

definition index_or_0 :: "nat option \<Rightarrow> nat" where
  "index_or_0 i = (case i of None \<Rightarrow> 0 | Some n \<Rightarrow> n)"

definition substring :: "string \<Rightarrow> nat option \<Rightarrow> nat option \<Rightarrow> string" where
  "substring s a b =
     (let lo = min (index_or_0 a) (index_or_0 b); hi = max (index_or_0 a) (index_or_0 b)
      in take (hi - lo) (drop lo s))"

definition substring_from :: "string \<Rightarrow> nat option \<Rightarrow> string" where
  "substring_from s a = drop (index_or_0 a) s"

text \<open>\<open>s.split(sep)\<close> for a one-character separator.\<close>

fun split :: "char \<Rightarrow> string \<Rightarrow> string list" where
  "split sep [] = [[]]"
| "split sep (c # cs) =
     (if c = sep then [] # split sep cs
      else (case split sep cs of [] \<Rightarrow> [[c]] | x # xs \<Rightarrow> (c # x) # xs))"

definition upper_letters :: string where
  "upper_letters = ''ABCDEFGHIJKLMNOPQRSTUVWXYZ''"

definition lower_letters :: string where
  "lower_letters = ''abcdefghijklmnopqrstuvwxyz''"

definition digits :: string where
  "digits = ''0123456789''"

definition toLowerCase :: "string \<Rightarrow> string" where
  "toLowerCase s =
     map (\<lambda>c. case map_of (zip upper_letters lower_letters) c of Some l \<Rightarrow> l | None \<Rightarrow> c) s"

text \<open>
  \<open>s.trim()\<close> removes from both ends the white space and the line terminators of
  ECMAScript: U+0009 to U+000D, U+0020, U+00A0, U+1680, U+2000 to U+200A, U+2028,
  U+2029, U+202F, U+205F, U+3000 and U+FEFF, here each in UTF-8.
\<close>

definition white_space :: "string list" where
  "white_space =
     [[CHR 0x09], [CHR 0x0A], [CHR 0x0B], [CHR 0x0C], [CHR 0x0D], [CHR 0x20],
      [CHR 0xC2, CHR 0xA0], [CHR 0xE1, CHR 0x9A, CHR 0x80],
      [CHR 0xE2, CHR 0x80, CHR 0x80], [CHR 0xE2, CHR 0x80, CHR 0x81],
      [CHR 0xE2, CHR 0x80, CHR 0x82], [CHR 0xE2, CHR 0x80, CHR 0x83],
      [CHR 0xE2, CHR 0x80, CHR 0x84], [CHR 0xE2, CHR 0x80, CHR 0x85],
      [CHR 0xE2, CHR 0x80, CHR 0x86], [CHR 0xE2, CHR 0x80, CHR 0x87],
      [CHR 0xE2, CHR 0x80, CHR 0x88], [CHR 0xE2, CHR 0x80, CHR 0x89],
      [CHR 0xE2, CHR 0x80, CHR 0x8A], [CHR 0xE2, CHR 0x80, CHR 0xA8],
      [CHR 0xE2, CHR 0x80, CHR 0xA9], [CHR 0xE2, CHR 0x80, CHR 0xAF],
      [CHR 0xE2, CHR 0x81, CHR 0x9F], [CHR 0xE3, CHR 0x80, CHR 0x80],
      [CHR 0xEF, CHR 0xBB, CHR 0xBF]]"

function strip_leading :: "string list \<Rightarrow> string \<Rightarrow> string" where
  "strip_leading ws s =
     (case find (\<lambda>w. w \<noteq> [] \<and> startsWith s w) ws of
        None \<Rightarrow> s
      | Some w \<Rightarrow> strip_leading ws (drop (length w) s))"
  by pat_completeness auto
termination
proof (relation "measure (\<lambda>(ws, s). length s)")
  show "wf (measure (\<lambda>(ws, s). length s))"
    by simp
next
  fix ws :: "string list" and s w :: string
  assume f: "find (\<lambda>w. w \<noteq> [] \<and> startsWith s w) ws = Some w"
  have l: "startsWith t p \<Longrightarrow> length p \<le> length t" for t p
    by (induction t p rule: startsWith.induct) simp_all
  from f have "w \<noteq> []" and "startsWith s w"
    by (auto simp add: find_Some_iff)
  with l [of s w] show "((ws, drop (length w) s), (ws, s)) \<in> measure (\<lambda>(ws, s). length s)"
    by (cases w) auto
qed

declare strip_leading.simps [simp del]

definition trim :: "string \<Rightarrow> string" where
  "trim s = rev (strip_leading (map rev white_space) (rev (strip_leading white_space s)))"

text \<open>\<open>n.toString()\<close> for a natural number.\<close>

fun toString :: "nat \<Rightarrow> string" where
  "toString n =
     (if n < 10 then [digits ! n] else toString (n div 10) @ [digits ! (n mod 10)])"

declare toString.simps [simp del]

subsection \<open>Bytes, text and base64\<close>

type_synonym byte = "8 word"

text \<open>\<open>String.fromCharCode(b)\<close> for a byte.\<close>

definition fromCharCode :: "byte \<Rightarrow> char" where
  "fromCharCode b = char_of (unat b)"

text \<open>
  The UTF-8 decoder of the platform. A byte below 0x80 is a character. A lead byte
  0xC2 to 0xF4 asks for one, two or three continuation bytes, the first of them
  within the bounds that exclude overlong forms, surrogates and code points above
  U+10FFFF; the sequence is kept when they all follow. At the first byte that does
  not continue the sequence, and at the end of the input, what was read of the
  sequence becomes one U+FFFD and that byte is read again; any other byte is one
  U+FFFD. A byte order mark at the start of the input is dropped.
\<close>

definition replacement :: string where
  "replacement = [CHR 0xEF, CHR 0xBF, CHR 0xBD]"

definition needed :: "byte \<Rightarrow> (nat \<times> byte \<times> byte) option" where
  "needed b =
     (if 0xC2 \<le> b \<and> b \<le> 0xDF then Some (1, 0x80, 0xBF)
      else if 0xE0 \<le> b \<and> b \<le> 0xEF
        then Some (2, if b = 0xE0 then 0xA0 else 0x80, if b = 0xED then 0x9F else 0xBF)
      else if 0xF0 \<le> b \<and> b \<le> 0xF4
        then Some (3, if b = 0xF0 then 0x90 else 0x80, if b = 0xF4 then 0x8F else 0xBF)
      else None)"

fun continuation :: "nat \<Rightarrow> byte \<Rightarrow> byte \<Rightarrow> byte list \<Rightarrow> byte list option \<times> byte list" where
  "continuation 0 lower upper bs = (Some [], bs)"
| "continuation (Suc k) lower upper [] = (None, [])"
| "continuation (Suc k) lower upper (b # bs) =
     (if lower \<le> b \<and> b \<le> upper
      then (case continuation k 0x80 0xBF bs of
              (Some seen, rest) \<Rightarrow> (Some (b # seen), rest)
            | (None, rest) \<Rightarrow> (None, rest))
      else (None, b # bs))"

function utf8_decode :: "byte list \<Rightarrow> string" where
  "utf8_decode [] = []"
| "utf8_decode (b # bs) =
     (if b < 0x80 then fromCharCode b # utf8_decode bs
      else case needed b of
             None \<Rightarrow> replacement @ utf8_decode bs
           | Some (n, lower, upper) \<Rightarrow>
               (case continuation n lower upper bs of
                  (Some seen, rest) \<Rightarrow> map fromCharCode (b # seen) @ utf8_decode rest
                | (None, rest) \<Rightarrow> replacement @ utf8_decode rest))"
  by pat_completeness auto
termination
proof -
  have l: "length (snd (continuation n lower upper bs)) \<le> length bs"
    for n lower upper bs
    by (induction n lower upper bs rule: continuation.induct)
       (auto split: prod.splits option.splits)
  have m: "length rest < Suc (length bs)"
    if "continuation n lower upper bs = (x, rest)" for n lower upper bs x rest
    using l [of n lower upper bs] that by simp
  show ?thesis
    by (relation "measure length") (auto dest: m sym)
qed

definition decode :: "byte list \<Rightarrow> string" where
  "decode content =
     utf8_decode (if take 3 content = [0xEF, 0xBB, 0xBF] then drop 3 content else content)"

text \<open>The bytes of a text; it writes the inputs of the examples.\<close>

definition charCode :: "char \<Rightarrow> byte" where
  "charCode c = word_of_nat (of_char c)"

definition encode :: "string \<Rightarrow> byte list" where
  "encode s = map charCode s"

definition base64_alphabet :: string where
  "base64_alphabet =
     ''ABCDEFGHIJKLMNOPQRSTUVWXYZabcdefghijklmnopqrstuvwxyz0123456789+/''"

definition b64 :: "nat \<Rightarrow> char" where
  "b64 n = base64_alphabet ! n"

text \<open>
  The platform's \<open>btoa\<close> on a binary string: three characters become four digits of
  the alphabet; one or two trailing characters are padded with \<open>=\<close>.
\<close>

fun btoa :: "string \<Rightarrow> string" where
  "btoa [] = []"
| "btoa [x] =
     (let a = (of_char x :: nat)
      in [b64 (a div 4), b64 (a mod 4 * 16), CHR ''='', CHR ''=''])"
| "btoa [x, y] =
     (let a = (of_char x :: nat); b = (of_char y :: nat)
      in [b64 (a div 4), b64 (a mod 4 * 16 + b div 16), b64 (b mod 16 * 4), CHR ''=''])"
| "btoa (x # y # z # r) =
     (let a = (of_char x :: nat); b = (of_char y :: nat); c = (of_char z :: nat)
      in [b64 (a div 4), b64 (a mod 4 * 16 + b div 16), b64 (b mod 16 * 4 + c div 64),
          b64 (c mod 64)] @ btoa r)"

text \<open>
  \<open>arrayBufferToBase64\<close>: the loop appends one character per byte, then \<open>btoa\<close>.
\<close>

fun binary_loop :: "string \<Rightarrow> byte list \<Rightarrow> string" where
  "binary_loop binary [] = binary"
| "binary_loop binary (b # buffer) = binary_loop (binary @ [fromCharCode b]) buffer"

definition arrayBufferToBase64 :: "byte list \<Rightarrow> string" where
  "arrayBufferToBase64 buffer = btoa (binary_loop [] buffer)"

text \<open>
  Base64 decoding (RFC 4648, with padding), the reader's side of the \<open>base64\<close>
  encoding: the value of a digit is its position in the alphabet.
\<close>

fun position :: "char \<Rightarrow> string \<Rightarrow> nat option" where
  "position x [] = None"
| "position x (c # cs) = (if x = c then Some 0 else map_option Suc (position x cs))"

definition b64_value :: "char \<Rightarrow> nat option" where
  "b64_value c = position c base64_alphabet"

definition decode_quad :: "char \<Rightarrow> char \<Rightarrow> char \<Rightarrow> char \<Rightarrow> byte list option" where
  "decode_quad w x y z =
     (case (b64_value w, b64_value x, b64_value y, b64_value z) of
        (Some a, Some b, Some c, Some d) \<Rightarrow>
          Some [word_of_nat (a * 4 + b div 16), word_of_nat (b mod 16 * 16 + c div 4),
                word_of_nat (c mod 4 * 64 + d)]
      | _ \<Rightarrow> None)"

definition decode_triple :: "char \<Rightarrow> char \<Rightarrow> char \<Rightarrow> byte list option" where
  "decode_triple w x y =
     (case (b64_value w, b64_value x, b64_value y) of
        (Some a, Some b, Some c) \<Rightarrow>
          Some [word_of_nat (a * 4 + b div 16), word_of_nat (b mod 16 * 16 + c div 4)]
      | _ \<Rightarrow> None)"

definition decode_pair :: "char \<Rightarrow> char \<Rightarrow> byte list option" where
  "decode_pair w x =
     (case (b64_value w, b64_value x) of
        (Some a, Some b) \<Rightarrow> Some [word_of_nat (a * 4 + b div 16)]
      | _ \<Rightarrow> None)"

fun base64_decode :: "string \<Rightarrow> byte list option" where
  "base64_decode [] = Some []"
| "base64_decode (w # x # y # z # r) =
     (if r = [] \<and> y = CHR ''='' \<and> z = CHR ''='' then decode_pair w x
      else if r = [] \<and> z = CHR ''='' then decode_triple w x y
      else (case decode_quad w x y z of
              None \<Rightarrow> None
            | Some bs \<Rightarrow> map_option (\<lambda>rest. bs @ rest) (base64_decode r)))"
| "base64_decode _ = None"

subsection \<open>Package names as JavaScript values\<close>

text \<open>
  The name that travels through the pipeline is read out of \<open>bootstrapAliases\<close>, an
  object literal, so it is a string or a member that the literal inherits from
  \<open>Object.prototype\<close> (see \<open>bootstrapAliases\<close> below). \<open>text_of\<close> is the conversion
  a template literal applies.
\<close>

datatype name_value = Str string | Inherited string

definition text_of :: "name_value \<Rightarrow> string" where
  "text_of v =
     (case v of
        Str s \<Rightarrow> s
      | Inherited m \<Rightarrow>
          if m = ''__proto__'' then ''[object Object]''
          else if m = ''constructor'' then ''function Object() { [native code] }''
          else ''function '' @ m @ ''() { [native code] }'')"

subsection \<open>The decoder: processZip\<close>

definition texExtensions :: "string list" where
  "texExtensions = [''.sty'', ''.cls'', ''.def'', ''.cfg'', ''.tex'', ''.fd'', ''.clo'', ''.ltx'']"

definition fontExtensions :: "string list" where
  "fontExtensions = [''.pfb'', ''.pfm'', ''.afm'', ''.tfm'', ''.vf'', ''.map'', ''.enc'']"

text \<open>
  \<open>filePath.substring(filePath.lastIndexOf('.')).toLowerCase()\<close> and
  \<open>filePath.split('/').pop() || ''\<close>.
\<close>

definition ext_of :: "string \<Rightarrow> string" where
  "ext_of filePath = toLowerCase (substring_from filePath (lastIndexOf filePath (CHR ''.'')))"

definition fileName_of :: "string \<Rightarrow> string" where
  "fileName_of filePath = last (split (CHR ''/'') filePath)"

text \<open>The test that skips the documentation and source trees.\<close>

definition skipped :: "string \<Rightarrow> bool" where
  "skipped filePath =
     (includes_str filePath ''/doc/'' \<or> startsWith filePath ''doc/'' \<or>
      includes_str filePath ''/source/'' \<or> startsWith filePath ''source/'')"

text \<open>
  \<open>filePath.match(/\/tex\/latex\/([^/]+)/)\<close> and its sibling for \<open>generic\<close>: the
  leftmost position where the literal is followed by at least one character other
  than a slash; the capture is the longest run of such characters.
\<close>

fun match_dir :: "string \<Rightarrow> string \<Rightarrow> string option" where
  "match_dir lit [] = None"
| "match_dir lit (c # cs) =
     (case strip_prefix lit (c # cs) of
        None \<Rightarrow> match_dir lit cs
      | Some r \<Rightarrow>
          (let captured = takeWhile (\<lambda>x. x \<noteq> CHR ''/'') r
           in if captured \<noteq> [] then Some captured else match_dir lit cs))"

definition tex_targetDir :: "name_value \<Rightarrow> string \<Rightarrow> string" where
  "tex_targetDir pkgName filePath =
     (if includes_str filePath ''/tex/latex/'' then
        (case match_dir ''/tex/latex/'' filePath of
           Some m \<Rightarrow> ''/texlive/texmf-dist/tex/latex/'' @ m
         | None \<Rightarrow> ''/texlive/texmf-dist/tex/latex/'' @ text_of pkgName)
      else if includes_str filePath ''/tex/generic/'' then
        (case match_dir ''/tex/generic/'' filePath of
           Some m \<Rightarrow> ''/texlive/texmf-dist/tex/generic/'' @ m
         | None \<Rightarrow> ''/texlive/texmf-dist/tex/latex/'' @ text_of pkgName)
      else ''/texlive/texmf-dist/tex/latex/'' @ text_of pkgName)"

text \<open>
  The scan \<open>/\\RequirePackage(?:\[[^\]]*\])?\{([^}]+)\}/g\<close>. At one position: the
  macro name, then the bracket part if it matches and a brace part follows it,
  otherwise the brace part at once. \<open>matchAll\<close> resumes behind a match and one
  character further where there is none.
\<close>

definition bracket_group :: "string \<Rightarrow> string option" where
  "bracket_group r =
     (case r of
        [] \<Rightarrow> None
      | c # r1 \<Rightarrow>
          if c = CHR ''['' then
            (case dropWhile (\<lambda>x. x \<noteq> CHR '']'') r1 of [] \<Rightarrow> None | _ # r2 \<Rightarrow> Some r2)
          else None)"

definition brace_group :: "string \<Rightarrow> (string \<times> string) option" where
  "brace_group r =
     (case r of
        [] \<Rightarrow> None
      | c # r1 \<Rightarrow>
          if c = CHR ''{'' then
            (let captured = takeWhile (\<lambda>x. x \<noteq> CHR ''}'') r1
             in case dropWhile (\<lambda>x. x \<noteq> CHR ''}'') r1 of
                  [] \<Rightarrow> None
                | _ # r2 \<Rightarrow> if captured = [] then None else Some (captured, r2))
          else None)"

definition requirePackage_at :: "string \<Rightarrow> (string \<times> string) option" where
  "requirePackage_at s =
     (case strip_prefix (CHR 0x5C # ''RequirePackage'') s of
        None \<Rightarrow> None
      | Some r \<Rightarrow>
          (case (case bracket_group r of None \<Rightarrow> None | Some r' \<Rightarrow> brace_group r') of
             Some m \<Rightarrow> Some m
           | None \<Rightarrow> brace_group r))"

function matchAll_RequirePackage :: "string \<Rightarrow> string list" where
  "matchAll_RequirePackage [] = []"
| "matchAll_RequirePackage (c # cs) =
     (case requirePackage_at (c # cs) of
        Some (captured, rest) \<Rightarrow> captured # matchAll_RequirePackage rest
      | None \<Rightarrow> matchAll_RequirePackage cs)"
  by pat_completeness auto
termination
proof (relation "measure length")
  show "wf (measure length)" by simp
next
  fix c cs x2 captured rest
  assume m: "requirePackage_at (c # cs) = Some x2" and x2: "(captured, rest) = x2"
  have strip: "length t = length p + length r" if "strip_prefix p t = Some r" for p t r
    using that by (induction p t rule: strip_prefix.induct) (auto split: if_splits)
  have bracket: "length r' < length r" if "bracket_group r = Some r'" for r r'
  proof -
    from that obtain a r1 where r: "r = a # r1"
      by (cases r) (auto simp: bracket_group_def)
    from that r obtain y where "dropWhile (\<lambda>x. x \<noteq> CHR '']'') r1 = y # r'"
      by (auto simp: bracket_group_def split: if_splits list.splits)
    then have "length r' < length (dropWhile (\<lambda>x. x \<noteq> CHR '']'') r1)" by simp
    also have "\<dots> \<le> length r1" by (rule length_dropWhile_le)
    finally show ?thesis using r by simp
  qed
  have brace: "length r' < length r" if "brace_group r = Some (g, r')" for r g r'
  proof -
    from that obtain a r1 where r: "r = a # r1"
      by (cases r) (auto simp: brace_group_def)
    from that r obtain y where "dropWhile (\<lambda>x. x \<noteq> CHR ''}'') r1 = y # r'"
      by (auto simp: brace_group_def Let_def split: if_splits list.splits)
    then have "length r' < length (dropWhile (\<lambda>x. x \<noteq> CHR ''}'') r1)" by simp
    also have "\<dots> \<le> length r1" by (rule length_dropWhile_le)
    finally show ?thesis using r by simp
  qed
  have "length r < length t" if "requirePackage_at t = Some (g, r)" for t g r
    using that unfolding requirePackage_at_def
    by (auto split: option.splits dest!: strip bracket brace)
  from this [of "c # cs" captured rest] m x2
  show "(rest, c # cs) \<in> measure length" by simp
next
  fix c cs
  show "(cs, c # cs) \<in> measure length" by simp
qed

text \<open>The test \<open>/^[a-zA-Z][a-zA-Z0-9-]*$/\<close> on a candidate dependency.\<close>

definition is_identifier :: "string \<Rightarrow> bool" where
  "is_identifier d =
     (case d of
        [] \<Rightarrow> False
      | c # cs \<Rightarrow>
          c \<in> set (lower_letters @ upper_letters) \<and>
          (\<forall>x \<in> set cs. x \<in> set (lower_letters @ upper_letters @ digits @ ''-'')))"

text \<open>
  \<open>detectedDeps.add(d)\<close>: a \<open>Set\<close> keeps its elements in the order of their first
  insertion.
\<close>

definition set_add :: "string list \<Rightarrow> string \<Rightarrow> string list" where
  "set_add deps d = (if d \<in> set deps then deps else deps @ [d])"

definition deps_of_match :: "string \<Rightarrow> string list" where
  "deps_of_match captured = filter is_identifier (map trim (split (CHR '','') captured))"

definition scan_deps :: "string list \<Rightarrow> string \<Rightarrow> string list" where
  "scan_deps detectedDeps textContent =
     foldl set_add detectedDeps
       (concat (map deps_of_match (matchAll_RequirePackage textContent)))"

text \<open>
  The font pattern
  \<open>/(?:^|\/)fonts\/(type1|tfm|vf|afm|enc|map|opentype|truetype)(\/[^/]+)*\/([^/]+)$/\<close>.
  \<open>slash_segments\<close> is its tail: one or more groups of a slash and a non-empty run
  without a slash, up to the end of the path.
\<close>

definition font_kinds :: "string list" where
  "font_kinds =
     [''type1'', ''tfm'', ''vf'', ''afm'', ''enc'', ''map'', ''opentype'', ''truetype'']"

function slash_segments :: "string \<Rightarrow> bool" where
  "slash_segments [] = False"
| "slash_segments (c # cs) =
     (c = CHR ''/'' \<and> takeWhile (\<lambda>x. x \<noteq> CHR ''/'') cs \<noteq> [] \<and>
      (dropWhile (\<lambda>x. x \<noteq> CHR ''/'') cs = [] \<or>
       slash_segments (dropWhile (\<lambda>x. x \<noteq> CHR ''/'') cs)))"
  by pat_completeness auto
termination
  by (relation "measure length") (auto simp: length_dropWhile_le less_Suc_eq_le)

definition fonts_here :: "string \<Rightarrow> bool" where
  "fonts_here s =
     list_ex (\<lambda>kind. case strip_prefix (''fonts/'' @ kind) s of
                       None \<Rightarrow> False
                     | Some r \<Rightarrow> slash_segments r) font_kinds"

fun fonts_after_slash :: "string \<Rightarrow> bool" where
  "fonts_after_slash [] = False"
| "fonts_after_slash (c # cs) = ((c = CHR ''/'' \<and> fonts_here cs) \<or> fonts_after_slash cs)"

definition fontsMatch :: "string \<Rightarrow> bool" where
  "fontsMatch filePath = (fonts_here filePath \<or> fonts_after_slash filePath)"

definition extToDir :: "(string \<times> string) list" where
  "extToDir =
     [(''.pfb'', ''fonts/type1/public''), (''.pfm'', ''fonts/type1/public''),
      (''.afm'', ''fonts/afm/public''), (''.tfm'', ''fonts/tfm/public''),
      (''.vf'', ''fonts/vf/public''), (''.map'', ''fonts/map/dvips''),
      (''.enc'', ''fonts/enc/dvips'')]"

definition font_targetDir :: "name_value \<Rightarrow> string \<Rightarrow> string \<Rightarrow> string" where
  "font_targetDir pkgName filePath ext =
     (if fontsMatch filePath then
        (let fontsIdx = indexOf filePath ''fonts/'';
             fontsPath = substring filePath fontsIdx (lastIndexOf filePath (CHR ''/''))
         in ''/texlive/texmf-dist/'' @ fontsPath)
      else
        (let baseDir = (case map_of extToDir ext of
                          Some d \<Rightarrow> d
                        | None \<Rightarrow> ''fonts/type1/public'')
         in ''/texlive/texmf-dist/'' @ baseDir @ ''/'' @ text_of pkgName))"

record file_entry =
  content :: string
  encoding :: string

text \<open>
  One turn of the loop over \<open>Object.entries(files)\<close>. The accumulator is \<open>result\<close>, an
  object whose keys keep their first position when written again, and
  \<open>detectedDeps\<close>.
\<close>

definition processZip_entry ::
  "name_value \<Rightarrow> (string \<times> file_entry) list \<times> string list \<Rightarrow> string \<times> byte list \<Rightarrow>
   (string \<times> file_entry) list \<times> string list" where
  "processZip_entry pkgName acc entry =
     (let result = fst acc; detectedDeps = snd acc;
          filePath = fst entry; bytes = snd entry;
          ext = ext_of filePath; fileName = fileName_of filePath
      in if skipped filePath then acc
         else if ext \<in> set texExtensions then
           (let targetDir = tex_targetDir pkgName filePath;
                textContent = decode bytes
            in (AList.update (targetDir @ ''/'' @ fileName)
                  \<lparr>content = textContent, encoding = ''text''\<rparr> result,
                scan_deps detectedDeps textContent))
         else if ext \<in> set fontExtensions then
           (let targetDir = font_targetDir pkgName filePath ext;
                base64Content = arrayBufferToBase64 bytes
            in (AList.update (targetDir @ ''/'' @ fileName)
                  \<lparr>content = base64Content, encoding = ''base64''\<rparr> result,
                detectedDeps))
         else acc)"

record extracted =
  name :: name_value
  files :: "(string \<times> file_entry) list"
  totalFiles :: nat
  dependencies :: "string list"

text \<open>
  \<open>processZip\<close> behind \<open>unzipSync\<close>: from the entries of the archive to the result,
  \<open>None\<close> for the source's \<open>null\<close>.
\<close>

definition processZip_files :: "(string \<times> byte list) list \<Rightarrow> name_value \<Rightarrow> extracted option" where
  "processZip_files entries pkgName =
     (let acc = foldl (processZip_entry pkgName) ([], []) entries;
          result = fst acc; detectedDeps = snd acc;
          fileCount = length result;
          dependencies = filter (\<lambda>d. Str d \<noteq> pkgName) detectedDeps
      in if fileCount = 0 then None
         else Some \<lparr>name = pkgName, files = result, totalFiles = fileCount,
                    dependencies = dependencies\<rparr>)"

subsection \<open>JSON texts and responses\<close>

datatype json = JNull | JNumber nat | JString string | JArray "json list"
  | JObject "(string \<times> json) list"

text \<open>
  \<open>JSON.stringify\<close>: a string is quoted, with the quote, the backslash and the control
  characters escaped; members are separated by commas, with no white space.
\<close>

definition hex_digits :: string where
  "hex_digits = ''0123456789abcdef''"

definition escape_char :: "char \<Rightarrow> string" where
  "escape_char c =
     (if c = CHR 0x22 then [CHR 0x5C, CHR 0x22]
      else if c = CHR 0x5C then [CHR 0x5C, CHR 0x5C]
      else if c = CHR 0x08 then [CHR 0x5C, CHR ''b'']
      else if c = CHR 0x0C then [CHR 0x5C, CHR ''f'']
      else if c = CHR 0x0A then [CHR 0x5C, CHR ''n'']
      else if c = CHR 0x0D then [CHR 0x5C, CHR ''r'']
      else if c = CHR 0x09 then [CHR 0x5C, CHR ''t'']
      else if (of_char c :: nat) < 32 then
        [CHR 0x5C, CHR ''u'', CHR ''0'', CHR ''0'',
         hex_digits ! ((of_char c :: nat) div 16), hex_digits ! ((of_char c :: nat) mod 16)]
      else [c])"

definition quote :: "string \<Rightarrow> string" where
  "quote s = [CHR 0x22] @ concat (map escape_char s) @ [CHR 0x22]"

fun join :: "string \<Rightarrow> string list \<Rightarrow> string" where
  "join sep [] = []"
| "join sep [x] = x"
| "join sep (x # y # ys) = x @ sep @ join sep (y # ys)"

fun stringify :: "json \<Rightarrow> string" where
  "stringify JNull = ''null''"
| "stringify (JNumber n) = toString n"
| "stringify (JString s) = quote s"
| "stringify (JArray xs) = ''['' @ join '','' (map stringify xs) @ '']''"
| "stringify (JObject members) =
     ''{'' @ join '','' (map (\<lambda>m. quote (fst m) @ '':'' @ stringify (snd m)) members) @ ''}''"

text \<open>The body of a response or of a stored object: a string or an \<open>ArrayBuffer\<close>.\<close>

datatype body = Text string | Binary "byte list"

record response =
  rstatus :: nat
  rheaders :: "(string \<times> string) list"
  rbody :: body

definition CORS_HEADERS :: "(string \<times> string) list" where
  "CORS_HEADERS =
     [(''Access-Control-Allow-Origin'', ''*''),
      (''Access-Control-Allow-Methods'', ''GET, POST, OPTIONS''),
      (''Access-Control-Allow-Headers'', ''Content-Type'')]"

definition jsonResponse :: "json \<Rightarrow> nat \<Rightarrow> response" where
  "jsonResponse data st =
     \<lparr>rstatus = st,
      rheaders = [(''Content-Type'', ''application/json'')] @ CORS_HEADERS,
      rbody = Text (stringify data)\<rparr>"

definition error_json :: "string \<Rightarrow> json" where
  "error_json msg = JObject [(''error'', JString msg)]"

text \<open>
  The object that \<open>JSON.stringify(ctanResult)\<close> writes. A function-valued \<open>name\<close> is
  left out and \<open>Object.prototype\<close> itself is written as an empty object.
\<close>

definition file_json :: "file_entry \<Rightarrow> json" where
  "file_json e = JObject [(''content'', JString (content e)), (''encoding'', JString (encoding e))]"

definition result_json :: "extracted \<Rightarrow> json" where
  "result_json r =
     JObject
       ((case name r of
           Str n \<Rightarrow> [(''name'', JString n)]
         | Inherited m \<Rightarrow> if m = ''__proto__'' then [(''name'', JObject [])] else []) @
        [(''files'', JObject (map (\<lambda>f. (fst f, file_json (snd f))) (files r))),
         (''totalFiles'', JNumber (totalFiles r)),
         (''dependencies'', JArray (map JString (dependencies r)))])"

subsection \<open>The environment: registry, mirror, ZIP library and object store\<close>

text \<open>
  The fields of the registry's JSON reply that the worker reads. \<open>errors\<close> is the
  truth value of \<open>info.errors\<close>; the other fields are strings or absent;
  \<open>ctan_path\<close> is \<open>info.ctan?.path\<close>.
\<close>

record pkg_info =
  errors :: bool
  pkg_name :: "string option"
  install :: "string option"
  ctan_path :: "string option"
  miktex :: "string option"
  texlive :: "string option"

text \<open>
  What \<open>fetch\<close> resolves to: the status, the outcome of \<open>json()\<close> (\<open>Inl\<close> when the body
  is no JSON text and the call rejects) and the bytes of \<open>arrayBuffer()\<close>.
\<close>

record upstream =
  status :: nat
  json_reply :: "string + pkg_info"
  arrayBuffer :: "byte list"

definition ok :: "upstream \<Rightarrow> bool" where
  "ok r = (200 \<le> status r \<and> status r \<le> 299)"

text \<open>
  The world answers a fetch of a URL by a rejection with a message (\<open>Inl\<close>, a transport
  failure) or by a response; the answer may depend on the moment, counted by the
  length of the log. \<open>unzipSync\<close> throws on a malformed archive (\<open>Inl\<close>) or returns the
  entries in the order of \<open>Object.entries\<close>. The request headers (the fixed
  \<open>User-Agent\<close>) and the redirect mode are the same for every fetch and are not
  recorded. Reading the body of a response that has arrived, and reading or writing
  the bucket, are taken not to fail.
\<close>

record world =
  fetch_reply :: "nat \<Rightarrow> string \<Rightarrow> string + upstream"
  unzipSync :: "byte list \<Rightarrow> string + (string \<times> byte list) list"

datatype event = Fetch string | BucketGet string | BucketPut string body

record state =
  bucket :: "string \<Rightarrow> body option"
  log :: "event list"

definition fetch :: "world \<Rightarrow> string \<Rightarrow> state \<Rightarrow> (string + upstream) \<times> state" where
  "fetch w url s = (fetch_reply w (length (log s)) url, s\<lparr>log := log s @ [Fetch url]\<rparr>)"

definition bucket_get :: "string \<Rightarrow> state \<Rightarrow> body option \<times> state" where
  "bucket_get key s = (bucket s key, s\<lparr>log := log s @ [BucketGet key]\<rparr>)"

definition bucket_put :: "string \<Rightarrow> body \<Rightarrow> state \<Rightarrow> state" where
  "bucket_put key v s =
     s\<lparr>bucket := (bucket s)(key \<mapsto> v), log := log s @ [BucketPut key v]\<rparr>"

text \<open>
  \<open>cached.size\<close> and \<open>cached.text()\<close> of a stored object. Stored bytes are read by the
  UTF-8 decoder; a stored string is read back as it was written (the worker writes
  the texts of \<open>JSON.stringify\<close>, which do not start with a byte order mark).
\<close>

definition size_of :: "body \<Rightarrow> nat" where
  "size_of obj = (case obj of Text t \<Rightarrow> length t | Binary bs \<Rightarrow> length bs)"

definition text_body :: "body \<Rightarrow> string" where
  "text_body obj = (case obj of Text t \<Rightarrow> t | Binary bs \<Rightarrow> decode bs)"

text \<open>Truth of an optional string in a condition or under \<open>||\<close>.\<close>

definition truthy :: "string option \<Rightarrow> bool" where
  "truthy v = (case v of None \<Rightarrow> False | Some t \<Rightarrow> t \<noteq> [])"

subsection \<open>Constants of the worker\<close>

definition TEXLIVE_ARCHIVE_BASE :: string where
  "TEXLIVE_ARCHIVE_BASE =
     ''https://ftp.tu-chemnitz.de/pub/tug/historic/systems/texlive/2023/tlnet-final/archive''"

definition CTAN_CACHE_VERSION :: string where
  "CTAN_CACHE_VERSION = ''v5''"

text \<open>
  \<open>bootstrapAliases[key]\<close>. The table is an object literal, so a key that is not its
  own is looked up in \<open>Object.prototype\<close>; these are the members of that prototype.
\<close>

definition object_prototype_members :: "string list" where
  "object_prototype_members =
     [''constructor'', ''__defineGetter__'', ''__defineSetter__'', ''hasOwnProperty'',
      ''__lookupGetter__'', ''__lookupSetter__'', ''isPrototypeOf'',
      ''propertyIsEnumerable'', ''toString'', ''valueOf'', ''__proto__'',
      ''toLocaleString'']"

definition bootstrapAliases :: "string \<Rightarrow> name_value option" where
  "bootstrapAliases key =
     (case map_of [(''etex'', ''etex-pkg''), (''tikz'', ''pgf'')] key of
        Some v \<Rightarrow> Some (Str v)
      | None \<Rightarrow> if key \<in> set object_prototype_members then Some (Inherited key) else None)"

definition truthy_value :: "name_value option \<Rightarrow> bool" where
  "truthy_value v =
     (case v of None \<Rightarrow> False | Some (Str t) \<Rightarrow> t \<noteq> [] | Some (Inherited m) \<Rightarrow> True)"

text \<open>The two tests on a package name that open every handler.\<close>

definition bad_length :: "string \<Rightarrow> bool" where
  "bad_length pkgName = (pkgName = [] \<or> length pkgName < 2 \<or> length pkgName > 50)"

definition bad_characters :: "string \<Rightarrow> bool" where
  "bad_characters pkgName =
     (\<exists>c \<in> set pkgName. c \<notin> set (lower_letters @ upper_letters @ digits @ ''_-''))"

definition registry_url :: "string \<Rightarrow> string" where
  "registry_url pkgText = ''https://ctan.org/json/2.0/pkg/'' @ pkgText"

subsection \<open>The archive stages\<close>

text \<open>
  \<open>processZip\<close> on the archive's bytes. An exception of \<open>unzipSync\<close> leaves the function;
  both callers catch it and return \<open>null\<close>, which is \<open>caught\<close>.
\<close>

definition processZip :: "world \<Rightarrow> byte list \<Rightarrow> name_value \<Rightarrow> string + extracted option" where
  "processZip w zipBuffer pkgName =
     (case unzipSync w zipBuffer of
        Inl e \<Rightarrow> Inl e
      | Inr entries \<Rightarrow> Inr (processZip_files entries pkgName))"

definition caught :: "string + extracted option \<Rightarrow> extracted option" where
  "caught r = (case r of Inl e \<Rightarrow> None | Inr v \<Rightarrow> v)"

definition install_url :: "string \<Rightarrow> string" where
  "install_url path = ''https://mirrors.ctan.org/install'' @ path"

definition tds_url :: "string \<Rightarrow> string" where
  "tds_url path = ''https://mirrors.ctan.org'' @ path @ ''.tds.zip''"

definition source_url :: "string \<Rightarrow> string" where
  "source_url path = ''https://mirrors.ctan.org'' @ path @ ''.zip''"

text \<open>The choice of \<open>downloadUrl\<close> in \<open>tryCtanTdsZip\<close>; \<open>None\<close> is \<open>null\<close>.\<close>

definition downloadUrl_of :: "pkg_info \<Rightarrow> string option" where
  "downloadUrl_of info =
     (if truthy (install info) then map_option install_url (install info)
      else if truthy (ctan_path info) then map_option tds_url (ctan_path info)
      else None)"

definition tryCtanTdsZip :: "world \<Rightarrow> name_value \<Rightarrow> state \<Rightarrow> extracted option \<times> state" where
  "tryCtanTdsZip w pkgName s =
     (case fetch w (registry_url (text_of pkgName)) s of
        (Inl e, s1) \<Rightarrow> (None, s1)
      | (Inr infoResp, s1) \<Rightarrow>
          if \<not> ok infoResp then (None, s1)
          else
            (case json_reply infoResp of
               Inl e \<Rightarrow> (None, s1)
             | Inr info \<Rightarrow>
                 if errors info then (None, s1)
                 else
                   (case downloadUrl_of info of
                      None \<Rightarrow> (None, s1)
                    | Some downloadUrl \<Rightarrow>
                        (case fetch w downloadUrl s1 of
                           (Inl e, s2) \<Rightarrow> (None, s2)
                         | (Inr resp, s2) \<Rightarrow>
                             if \<not> ok resp then
                               (if truthy (ctan_path info) \<and>
                                   \<not> includes_str downloadUrl ''.tds.zip'' then
                                  (case fetch w (tds_url (the (ctan_path info))) s2 of
                                     (Inl e, s3) \<Rightarrow> (None, s3)
                                   | (Inr altResp, s3) \<Rightarrow>
                                       if ok altResp then
                                         (caught (processZip w (arrayBuffer altResp) pkgName), s3)
                                       else (None, s3))
                                else (None, s2))
                             else (caught (processZip w (arrayBuffer resp) pkgName), s2)))))"

definition tryCtanSourceZip :: "world \<Rightarrow> name_value \<Rightarrow> state \<Rightarrow> extracted option \<times> state" where
  "tryCtanSourceZip w pkgName s =
     (case fetch w (registry_url (text_of pkgName)) s of
        (Inl e, s1) \<Rightarrow> (None, s1)
      | (Inr infoResp, s1) \<Rightarrow>
          if \<not> ok infoResp then (None, s1)
          else
            (case json_reply infoResp of
               Inl e \<Rightarrow> (None, s1)
             | Inr info \<Rightarrow>
                 if errors info \<or> \<not> truthy (ctan_path info) then (None, s1)
                 else
                   (case fetch w (source_url (the (ctan_path info))) s1 of
                      (Inl e, s2) \<Rightarrow> (None, s2)
                    | (Inr resp, s2) \<Rightarrow>
                        if \<not> ok resp then (None, s2)
                        else (caught (processZip w (arrayBuffer resp) pkgName), s2))))"

subsection \<open>The handlers\<close>

definition handleTexLiveProxy :: "world \<Rightarrow> string \<Rightarrow> state \<Rightarrow> response \<times> state" where
  "handleTexLiveProxy w pkgName s =
     (if bad_length pkgName then (jsonResponse (error_json ''Invalid package name'') 400, s)
      else if bad_characters pkgName then
        (jsonResponse (error_json ''Invalid package name characters'') 400, s)
      else
        (let cacheKey = ''texlive-cache/'' @ pkgName @ ''.tar.xz''
         in case bucket_get cacheKey s of
              (Some cached, s1) \<Rightarrow>
                (\<lparr>rstatus = 200,
                  rheaders = [(''Content-Type'', ''application/x-xz''),
                              (''Content-Length'', toString (size_of cached)),
                              (''X-Cache'', ''HIT'')] @ CORS_HEADERS,
                  rbody = cached\<rparr>, s1)
            | (None, s1) \<Rightarrow>
                (case fetch w (TEXLIVE_ARCHIVE_BASE @ ''/'' @ pkgName @ ''.tar.xz'') s1 of
                   (Inl e, s2) \<Rightarrow>
                     (jsonResponse (error_json (''TexLive proxy error: '' @ e)) 500, s2)
                 | (Inr resp, s2) \<Rightarrow>
                     if \<not> ok resp then
                       (if status resp = 404 then
                          (jsonResponse (error_json ''Package not found in TexLive 2023'') 404, s2)
                        else
                          (jsonResponse
                             (error_json (''TexLive fetch failed: '' @ toString (status resp)))
                             502, s2))
                     else
                       (let body = arrayBuffer resp;
                            s3 = bucket_put cacheKey (Binary body) s2
                        in (\<lparr>rstatus = 200,
                             rheaders = [(''Content-Type'', ''application/x-xz''),
                                         (''Content-Length'', toString (length body)),
                                         (''X-Cache'', ''MISS'')] @ CORS_HEADERS,
                             rbody = Binary body\<rparr>, s3)))))"

text \<open>\<open>a || b\<close> on optional strings, and with \<open>null\<close> as the last operand.\<close>

definition or_else :: "string option \<Rightarrow> string option \<Rightarrow> string option" where
  "or_else a b = (if truthy a then a else b)"

definition json_or_null :: "string option \<Rightarrow> json" where
  "json_or_null v = (case v of Some t \<Rightarrow> if t = [] then JNull else JString t | None \<Rightarrow> JNull)"

definition handleCtanPkgInfo :: "world \<Rightarrow> string \<Rightarrow> state \<Rightarrow> response \<times> state" where
  "handleCtanPkgInfo w pkgName s =
     (if bad_length pkgName then (jsonResponse (error_json ''Invalid package name'') 400, s)
      else if bad_characters pkgName then
        (jsonResponse (error_json ''Invalid package name characters'') 400, s)
      else
        (case fetch w (registry_url pkgName) s of
           (Inl e, s1) \<Rightarrow> (jsonResponse (error_json (''CTAN lookup error: '' @ e)) 500, s1)
         | (Inr resp, s1) \<Rightarrow>
             if \<not> ok resp then (jsonResponse (error_json ''Package not found'') 404, s1)
             else
               (case json_reply resp of
                  Inl e \<Rightarrow> (jsonResponse (error_json (''CTAN lookup error: '' @ e)) 500, s1)
                | Inr data \<Rightarrow>
                    if errors data then
                      (jsonResponse (error_json ''Package not found'') 404, s1)
                    else
                      (jsonResponse
                         (JObject
                            [(''name'', JString (if truthy (pkg_name data)
                                                 then the (pkg_name data) else pkgName)),
                             (''contained_in'',
                                json_or_null (or_else (texlive data) (miktex data))),
                             (''ctan_path'', json_or_null (ctan_path data))])
                         200, s1))))"

text \<open>
  \<open>handleCtanFetch\<close>, in three parts: \<open>parent_of\<close> is the reading of the registry's
  reply (\<open>Inl\<close> when \<open>json()\<close> rejects), \<open>ctan_chain\<close> is the rest of the function from
  the call of \<open>tryCtanTdsZip\<close> on.
\<close>

definition cacheKey_of :: "string \<Rightarrow> string" where
  "cacheKey_of requestedPkg = ''ctan-cache/'' @ CTAN_CACHE_VERSION @ ''/'' @ requestedPkg @ ''.json''"

definition alias_of :: "string \<Rightarrow> name_value" where
  "alias_of requestedPkg =
     (if truthy_value (bootstrapAliases requestedPkg) then the (bootstrapAliases requestedPkg)
      else Str requestedPkg)"

definition parent_of :: "upstream \<Rightarrow> name_value \<Rightarrow> string + name_value" where
  "parent_of infoResponse pkgName =
     (if ok infoResponse then
        (case json_reply infoResponse of
           Inl e \<Rightarrow> Inl e
         | Inr info \<Rightarrow>
             if \<not> errors info then
               (if truthy (miktex info) then Inr (Str (the (miktex info)))
                else if truthy (texlive info) then Inr (Str (the (texlive info)))
                else Inr pkgName)
             else Inr pkgName)
      else Inr pkgName)"

definition miss_response :: "string \<Rightarrow> string \<Rightarrow> response" where
  "miss_response jsonData source =
     \<lparr>rstatus = 200,
      rheaders = [(''Content-Type'', ''application/json''), (''X-Cache'', ''MISS''),
                  (''X-Source'', source)] @ CORS_HEADERS,
      rbody = Text jsonData\<rparr>"

definition ctan_chain ::
  "world \<Rightarrow> string \<Rightarrow> name_value \<Rightarrow> name_value \<Rightarrow> state \<Rightarrow> response \<times> state" where
  "ctan_chain w cacheKey parentPkg pkgName s =
     (case tryCtanTdsZip w parentPkg s of
        (Some ctanResult, s1) \<Rightarrow>
          (let jsonData = stringify (result_json ctanResult);
               s2 = bucket_put cacheKey (Text jsonData) s1
           in (miss_response jsonData ''ctan'', s2))
      | (None, s1) \<Rightarrow>
          (case tryCtanSourceZip w pkgName s1 of
             (Some altResult, s2) \<Rightarrow>
               (let jsonData = stringify (result_json altResult);
                    s3 = bucket_put cacheKey (Text jsonData) s2
                in (miss_response jsonData ''ctan-source'', s3))
           | (None, s2) \<Rightarrow> (jsonResponse (error_json ''Package not found'') 404, s2)))"

definition handleCtanFetch :: "world \<Rightarrow> string \<Rightarrow> state \<Rightarrow> response \<times> state" where
  "handleCtanFetch w requestedPkg s =
     (if bad_length requestedPkg then
        (jsonResponse (error_json ''Invalid package name'') 400, s)
      else if bad_characters requestedPkg then
        (jsonResponse (error_json ''Invalid package name characters'') 400, s)
      else
        (let cacheKey = cacheKey_of requestedPkg
         in case bucket_get cacheKey s of
              (Some cached, s1) \<Rightarrow>
                (\<lparr>rstatus = 200,
                  rheaders = [(''Content-Type'', ''application/json''),
                              (''X-Cache'', ''HIT'')] @ CORS_HEADERS,
                  rbody = Text (text_body cached)\<rparr>, s1)
            | (None, s1) \<Rightarrow>
                (let pkgName = alias_of requestedPkg
                 in case fetch w (registry_url (text_of pkgName)) s1 of
                      (Inl e, s2) \<Rightarrow>
                        (jsonResponse (error_json (''CTAN fetch error: '' @ e)) 500, s2)
                    | (Inr infoResponse, s2) \<Rightarrow>
                        (case parent_of infoResponse pkgName of
                           Inl e \<Rightarrow>
                             (jsonResponse (error_json (''CTAN fetch error: '' @ e)) 500, s2)
                         | Inr parentPkg \<Rightarrow> ctan_chain w cacheKey parentPkg pkgName s2))))"

section \<open>The fallback chain and the cache in words\<close>

text \<open>
  The chain in the words of its description. A stage looks the package up in the
  registry and, when the registry answers with metadata, attempts a list of archive
  URLs in order: a reply with a success status ends the stage with the decoded
  archive, a rejected fetch ends it with nothing, any other reply moves on to the
  next URL. The TDS stage attempts the install path and, behind it, the
  \<open>.tds.zip\<close> of the content path when there is a content path and the install URL
  does not itself contain \<open>.tds.zip\<close>; without an install path it attempts the
  \<open>.tds.zip\<close> of the content path alone. The source stage attempts the \<open>.zip\<close> of the
  content path.
\<close>

definition tds_attempts :: "pkg_info \<Rightarrow> string list" where
  "tds_attempts info =
     (if truthy (install info) then
        install_url (the (install info)) #
          (if truthy (ctan_path info) \<and>
              \<not> includes_str (install_url (the (install info))) ''.tds.zip''
           then [tds_url (the (ctan_path info))] else [])
      else if truthy (ctan_path info) then [tds_url (the (ctan_path info))]
      else [])"

definition source_attempts :: "pkg_info \<Rightarrow> string list" where
  "source_attempts info =
     (if truthy (ctan_path info) then [source_url (the (ctan_path info))] else [])"

fun first_success :: "world \<Rightarrow> name_value \<Rightarrow> string list \<Rightarrow> state \<Rightarrow> extracted option \<times> state" where
  "first_success w pkg [] s = (None, s)"
| "first_success w pkg (url # urls) s =
     (case fetch w url s of
        (Inl e, s1) \<Rightarrow> (None, s1)
      | (Inr resp, s1) \<Rightarrow>
          if ok resp then (caught (processZip w (arrayBuffer resp) pkg), s1)
          else first_success w pkg urls s1)"

definition stage ::
  "world \<Rightarrow> name_value \<Rightarrow> (pkg_info \<Rightarrow> string list) \<Rightarrow> state \<Rightarrow> extracted option \<times> state" where
  "stage w pkg plan s =
     (case fetch w (registry_url (text_of pkg)) s of
        (Inl e, s1) \<Rightarrow> (None, s1)
      | (Inr infoResp, s1) \<Rightarrow>
          if ok infoResp then
            (case json_reply infoResp of
               Inl e \<Rightarrow> (None, s1)
             | Inr info \<Rightarrow> if errors info then (None, s1) else first_success w pkg (plan info) s1)
          else (None, s1))"

text \<open>The macro of the dependency example, and the name that the scan looks for.\<close>

definition requirePackage :: string where
  "requirePackage = CHR 0x5C # ''RequirePackage''"

definition macro_example :: string where
  "macro_example = CHR 0x5C # ''RequirePackage[options]{amsmath,graphicx}''"

text \<open>A TeX-source file of an archive: outside \<open>doc\<close> and \<open>source\<close>, with a TeX extension.\<close>

definition tex_source :: "string \<times> byte list \<Rightarrow> bool" where
  "tex_source entry = (\<not> skipped (fst entry) \<and> ext_of (fst entry) \<in> set texExtensions)"

text \<open>
  The buckets that the worker produces: an entry under a key of the processed cache
  belongs to a name that passes the validation.
\<close>

definition bucket_ok :: "(string \<Rightarrow> body option) \<Rightarrow> bool" where
  "bucket_ok b = (\<forall>n. b (cacheKey_of n) \<noteq> None \<longrightarrow> \<not> bad_length n \<and> \<not> bad_characters n)"

section \<open>Worlds and states of the examples\<close>

text \<open>The empty bucket with an empty log, and a bucket that holds a result for \<open>pgf\<close>.\<close>

definition state_empty :: state where
  "state_empty = \<lparr>bucket = (\<lambda>key. None), log = []\<rparr>"

definition state_cached :: state where
  "state_cached = \<lparr>bucket = [''ctan-cache/v5/pgf.json'' \<mapsto> Text ''{}''], log = []\<rparr>"

text \<open>Replies: not found, service unavailable, registry metadata, an archive.\<close>

definition reply_404 :: upstream where
  "reply_404 = \<lparr>status = 404, json_reply = Inl ''Unexpected token'', arrayBuffer = []\<rparr>"

definition reply_503 :: upstream where
  "reply_503 = \<lparr>status = 503, json_reply = Inl ''Unexpected token'', arrayBuffer = []\<rparr>"

definition reply_info :: "pkg_info \<Rightarrow> upstream" where
  "reply_info info = \<lparr>status = 200, json_reply = Inr info, arrayBuffer = []\<rparr>"

definition reply_zip :: "byte list \<Rightarrow> upstream" where
  "reply_zip bs = \<lparr>status = 200, json_reply = Inl ''Unexpected token'', arrayBuffer = bs\<rparr>"

text \<open>
  A world whose network is down and whose ZIP library rejects every archive; worlds
  whose every reply has the status 404, or 503; a world without network whose ZIP
  library returns the given entries.
\<close>

definition world_down :: world where
  "world_down = \<lparr>fetch_reply = (\<lambda>n url. Inl ''network down''), unzipSync = (\<lambda>bs. Inl ''invalid zip'')\<rparr>"

definition world_404 :: world where
  "world_404 = \<lparr>fetch_reply = (\<lambda>n url. Inr reply_404), unzipSync = (\<lambda>bs. Inl ''invalid zip'')\<rparr>"

definition world_503 :: world where
  "world_503 = \<lparr>fetch_reply = (\<lambda>n url. Inr reply_503), unzipSync = (\<lambda>bs. Inl ''invalid zip'')\<rparr>"

definition world_of_zip :: "(string \<times> byte list) list \<Rightarrow> world" where
  "world_of_zip entries =
     \<lparr>fetch_reply = (\<lambda>n url. Inl ''network down''), unzipSync = (\<lambda>bs. Inr entries)\<rparr>"

text \<open>
  A world in which the registry knows \<open>pgf\<close> and the mirror serves its TDS archive,
  with one style file.
\<close>

definition info_pgf :: pkg_info where
  "info_pgf = \<lparr>errors = False, pkg_name = Some ''pgf'',
                install = Some ''/graphics/pgf/base/pgf.tds.zip'',
                ctan_path = Some ''/graphics/pgf/base'',
                miktex = Some ''pgf'', texlive = Some ''pgf''\<rparr>"

definition world_pgf :: world where
  "world_pgf =
     \<lparr>fetch_reply = (\<lambda>t url.
        if url = ''https://ctan.org/json/2.0/pkg/pgf'' then Inr (reply_info info_pgf)
        else if url = ''https://mirrors.ctan.org/install/graphics/pgf/base/pgf.tds.zip''
        then Inr (reply_zip [80, 75])
        else Inr reply_404),
      unzipSync = (\<lambda>bs. if bs = [80, 75]
                         then Inr [(''tex/latex/pgf/frontendlayer/tikz.sty'', encode ''x'')]
                         else Inl ''invalid zip'')\<rparr>"







text \<open>
  The world of \<open>pgf\<close> with a registry that is unavailable at first: the first two
  fetches are answered 503, the later ones as in \<open>world_pgf\<close>.
\<close>

definition world_late :: world where
  "world_late =
     \<lparr>fetch_reply = (\<lambda>t url. if t < 2 then Inr reply_503 else fetch_reply world_pgf t url),
      unzipSync = unzipSync world_pgf\<rparr>"

text \<open>
  A world in which the registry places \<open>graphicx\<close> in the bundle \<open>graphics\<close>, whose TDS
  archive holds a style file that requires \<open>graphicx\<close>.
\<close>

definition info_graphicx :: pkg_info where
  "info_graphicx = \<lparr>errors = False, pkg_name = Some ''graphicx'',
                     install = None, ctan_path = Some ''/macros/latex/required/graphics'',
                     miktex = Some ''graphics'', texlive = Some ''graphics''\<rparr>"

definition info_graphics :: pkg_info where
  "info_graphics = \<lparr>errors = False, pkg_name = Some ''graphics'',
                     install = Some ''/macros/latex/required/graphics.tds.zip'',
                     ctan_path = Some ''/macros/latex/required/graphics'',
                     miktex = Some ''graphics'', texlive = Some ''graphics''\<rparr>"

definition world_graphics :: world where
  "world_graphics =
     \<lparr>fetch_reply = (\<lambda>t url.
        if url = ''https://ctan.org/json/2.0/pkg/graphicx'' then Inr (reply_info info_graphicx)
        else if url = ''https://ctan.org/json/2.0/pkg/graphics''
        then Inr (reply_info info_graphics)
        else if url = ''https://mirrors.ctan.org/install/macros/latex/required/graphics.tds.zip''
        then Inr (reply_zip [80, 75])
        else Inr reply_404),
      unzipSync = (\<lambda>bs. if bs = [80, 75]
                         then Inr [(''tex/latex/graphics/epsfig.sty'',
                                    encode (CHR 0x5C # ''RequirePackage{graphicx}''))]
                         else Inl ''invalid zip'')\<rparr>"

text \<open>
  A world in which the registry declares for \<open>bar\<close> a content path and no install path;
  the mirror has no \<open>.tds.zip\<close> and serves the \<open>.zip\<close>, whose style file requires \<open>bar\<close>
  itself and \<open>amsmath\<close>.
\<close>

definition info_bar :: pkg_info where
  "info_bar = \<lparr>errors = False, pkg_name = Some ''bar'', install = None,
                ctan_path = Some ''/macros/latex/contrib/bar'',
                miktex = None, texlive = None\<rparr>"

definition world_bar :: world where
  "world_bar =
     \<lparr>fetch_reply = (\<lambda>t url.
        if url = ''https://ctan.org/json/2.0/pkg/bar'' then Inr (reply_info info_bar)
        else if url = ''https://mirrors.ctan.org/macros/latex/contrib/bar.zip''
        then Inr (reply_zip [80, 75])
        else Inr reply_404),
      unzipSync = (\<lambda>bs. if bs = [80, 75]
                         then Inr [(''bar/bar.sty'',
                                    encode (CHR 0x5C # ''RequirePackage{bar,amsmath}''))]
                         else Inl ''invalid zip'')\<rparr>"

text \<open>A world whose every archive holds a manual and a documented source, nothing else.\<close>

definition world_doc_only :: world where
  "world_doc_only =
     \<lparr>fetch_reply = (\<lambda>t url.
        if url = ''https://ctan.org/json/2.0/pkg/pgf'' then Inr (reply_info info_pgf)
        else Inr (reply_zip [80, 75])),
      unzipSync = (\<lambda>bs. Inr [(''doc/manual.pdf'', [37, 80, 68, 70]),
                              (''source/bar.dtx'', encode ''x'')])\<rparr>"

section \<open>Properties\<close>

subsection \<open>Base64 is read back exactly\<close>

lemma position_nth: "distinct xs \<Longrightarrow> n < length xs \<Longrightarrow> position (xs ! n) xs = Some n"
proof (induction xs arbitrary: n)
  case Nil then show ?case by simp
next
  case (Cons x xs)
  show ?case
  proof (cases n)
    case 0 then show ?thesis by simp
  next
    case (Suc m)
    with Cons.prems have "m < length xs" "xs ! m \<noteq> x" by auto
    with Cons Suc show ?thesis by simp
  qed
qed

lemma distinct_base64_alphabet: "distinct base64_alphabet"
  by (simp add: base64_alphabet_def)

lemma length_base64_alphabet: "length base64_alphabet = 64"
  by (simp add: base64_alphabet_def)

lemma b64_value_b64: "n < 64 \<Longrightarrow> b64_value (b64 n) = Some n"
  by (simp add: b64_value_def b64_def position_nth distinct_base64_alphabet length_base64_alphabet)

lemma b64_not_pad: "n < 64 \<Longrightarrow> b64 n \<noteq> CHR ''=''"
proof -
  assume "n < 64"
  then have "b64 n \<in> set base64_alphabet"
    by (simp add: b64_def length_base64_alphabet)
  moreover have "CHR ''='' \<notin> set base64_alphabet"
    by (simp add: base64_alphabet_def)
  ultimately show ?thesis by auto
qed

lemma of_char_bound: "(of_char c :: nat) < 256"
proof -
  have "(of_char c :: nat) mod 256 < 256" by simp
  then show ?thesis by (simp only: of_char_mod_256)
qed

lemma div_mult_add: "y < n \<Longrightarrow> (x * n + y) div n = (x::nat)"
  by simp

lemma mod_mult_add: "y < n \<Longrightarrow> (x * n + y) mod n = (y::nat)"
  by simp

lemma sextet_bounds:
  fixes a b c :: nat
  assumes "a < 256" "b < 256" "c < 256"
  shows "a div 4 < 64" "a mod 4 * 16 + b div 16 < 64" "b mod 16 * 4 + c div 64 < 64"
        "c mod 64 < 64" "b mod 16 * 4 < 64" "a mod 4 * 16 < 64"
proof -
  have p: "a mod 4 < 4" "b mod 16 < 16" by simp_all
  have q: "b div 16 < 16" "c div 64 < 4" using assms by simp_all
  show "a div 4 < 64" using assms by simp
  show "a mod 4 * 16 + b div 16 < 64" using p q by linarith
  show "b mod 16 * 4 + c div 64 < 64" using p q by linarith
  show "c mod 64 < 64" by simp
  show "b mod 16 * 4 < 64" using p by linarith
  show "a mod 4 * 16 < 64" using p by linarith
qed

lemma decode_quad_b64:
  assumes "a < 256" "b < 256" "c < 256"
  shows "decode_quad (b64 (a div 4)) (b64 (a mod 4 * 16 + b div 16))
           (b64 (b mod 16 * 4 + c div 64)) (b64 (c mod 64)) =
         Some [word_of_nat a, word_of_nat b, word_of_nat c]"
proof -
  have q: "b div 16 < 16" "c div 64 < 4" using assms by simp_all
  have v: "a div 4 * 4 + (a mod 4 * 16 + b div 16) div 16 = a"
          "(a mod 4 * 16 + b div 16) mod 16 * 16 + (b mod 16 * 4 + c div 64) div 4 = b"
          "(b mod 16 * 4 + c div 64) mod 4 * 64 + c mod 64 = c"
    by (simp_all only: div_mult_add [OF q(1)] mod_mult_add [OF q(1)] div_mult_add [OF q(2)]
                       mod_mult_add [OF q(2)] div_mult_mod_eq)
  show ?thesis
    unfolding decode_quad_def
    by (simp only: b64_value_b64 sextet_bounds [OF assms] v prod.case option.case)
qed

lemma decode_triple_b64:
  assumes "a < 256" "b < 256"
  shows "decode_triple (b64 (a div 4)) (b64 (a mod 4 * 16 + b div 16)) (b64 (b mod 16 * 4)) =
         Some [word_of_nat a, word_of_nat b]"
proof -
  have q: "b div 16 < 16" using assms by simp
  have z: "b mod 16 * 4 div 4 = b mod 16" by simp
  have v: "a div 4 * 4 + (a mod 4 * 16 + b div 16) div 16 = a"
          "(a mod 4 * 16 + b div 16) mod 16 * 16 + b mod 16 * 4 div 4 = b"
    by (simp_all only: div_mult_add [OF q] mod_mult_add [OF q] z div_mult_mod_eq)
  show ?thesis
    unfolding decode_triple_def
    by (simp only: b64_value_b64 sextet_bounds [OF assms assms(2)] v prod.case option.case)
qed

lemma decode_pair_b64:
  assumes "a < 256"
  shows "decode_pair (b64 (a div 4)) (b64 (a mod 4 * 16)) = Some [word_of_nat a]"
proof -
  have z: "a mod 4 * 16 div 16 = a mod 4" by simp
  have v: "a div 4 * 4 + a mod 4 * 16 div 16 = a"
    by (simp only: z div_mult_mod_eq)
  show ?thesis
    unfolding decode_pair_def
    by (simp only: b64_value_b64 sextet_bounds [OF assms assms assms] v prod.case option.case)
qed

lemma base64_decode_btoa: "base64_decode (btoa t) = Some (map charCode t)"
proof (induction t rule: btoa.induct)
  case 1
  then show ?case by simp
next
  case (2 x)
  show ?case
    using decode_pair_b64 [OF of_char_bound [of x]]
    by (simp add: charCode_def Let_def)
next
  case (3 x y)
  have "b64 (of_char y mod 16 * 4) \<noteq> CHR ''=''"
    by (rule b64_not_pad) (rule sextet_bounds(5) [OF of_char_bound of_char_bound of_char_bound])
  then show ?case
    using decode_triple_b64 [OF of_char_bound [of x] of_char_bound [of y]]
    by (simp add: charCode_def Let_def)
next
  case (4 x y z r)
  have "b64 (of_char z mod 64) \<noteq> CHR ''=''"
    by (rule b64_not_pad) simp
  then show ?case
    using 4 decode_quad_b64 [OF of_char_bound [of x] of_char_bound [of y] of_char_bound [of z]]
    by (simp add: charCode_def Let_def)
qed

lemma binary_loop_map: "binary_loop acc buffer = acc @ map fromCharCode buffer"
  by (induction buffer arbitrary: acc) simp_all

lemma charCode_fromCharCode: "charCode (fromCharCode b) = b"
  by (simp add: charCode_def fromCharCode_def unsigned_less [where 'b = 8, simplified])

lemma fromCharCode_charCode: "fromCharCode (charCode c) = c"
  by (simp add: charCode_def fromCharCode_def unat_of_nat)

lemma utf8_decode_ascii:
  "\<forall>b\<in>set bs. b < 0x80 \<Longrightarrow> utf8_decode bs = map fromCharCode bs"
  by (induction bs) simp_all

lemma decode_ascii: "\<forall>b\<in>set bs. b < 0x80 \<Longrightarrow> decode bs = map fromCharCode bs"
  by (cases bs) (auto simp add: decode_def utf8_decode_ascii)

lemma charCode_ascii: "of_char c < (128::nat) \<Longrightarrow> charCode c < 0x80"
  by (simp add: charCode_def word_less_nat_alt unat_of_nat)

lemma decode_encode: "\<forall>c\<in>set t. of_char c < (128::nat) \<Longrightarrow> decode (encode t) = t"
  by (simp add: decode_ascii encode_def charCode_ascii fromCharCode_charCode comp_def)

lemma base64_roundtrip: "base64_decode (arrayBufferToBase64 bs) = Some bs"
  by (simp add: arrayBufferToBase64_def binary_loop_map base64_decode_btoa
                charCode_fromCharCode comp_def)

subsection \<open>The text decoder and trim\<close>

text \<open>
  The decoder on bytes outside ASCII: a valid sequence is kept, a byte order mark at
  the start is dropped, an invalid byte and a truncated sequence become U+FFFD, and
  the byte that ends a truncated sequence is read again. \<open>trim\<close> removes a no-break
  space and a line separator as it removes a blank.
\<close>

lemma continuation_numeral:
  "continuation (numeral k) lower upper [] = (None, [])"
  "continuation (numeral k) lower upper (b # bs) =
     (if lower \<le> b \<and> b \<le> upper
      then (case continuation (pred_numeral k) 0x80 0xBF bs of
              (Some seen, rest) \<Rightarrow> (Some (b # seen), rest)
            | (None, rest) \<Rightarrow> (None, rest))
      else (None, b # bs))"
  by (simp_all add: numeral_eq_Suc)

lemma decode_examples:
  "decode [0x61, 0xC3, 0xA9, 0x62] = map fromCharCode [0x61, 0xC3, 0xA9, 0x62]"
  "decode [0xEF, 0xBB, 0xBF, 0x61] = map fromCharCode [0x61]"
  "decode [0x61, 0xFF, 0x62] = fromCharCode 0x61 # replacement @ [fromCharCode 0x62]"
  "decode [0xE2, 0x80, 0x61] = replacement @ [fromCharCode 0x61]"
  "decode [0xC0, 0x80] = replacement @ replacement"
  "decode [0xED, 0xA0, 0x80] = replacement @ replacement @ replacement"
  "decode [0xF0, 0x9F, 0x98, 0x80] = map fromCharCode [0xF0, 0x9F, 0x98, 0x80]"
  by (simp_all add: decode_def needed_def continuation_numeral)

lemma trim_examples:
  "trim ([CHR 0xC2, CHR 0xA0] @ '' a b '' @ [CHR 0xE2, CHR 0x80, CHR 0xA8, CHR 0x0A]) = ''a b''"
  "trim ''amsmath'' = ''amsmath''"
  by (simp_all add: trim_def strip_leading.simps white_space_def)

subsection \<open>Decoding: the two archives of the round trip\<close>

lemma sty_ext: "ext_of ''foo/tex/latex/bar/bar.sty'' = ''.sty''"
  by (simp add: ext_of_def substring_from_def index_or_0_def toLowerCase_def
                upper_letters_def lower_letters_def)

lemma sty_fileName: "fileName_of ''foo/tex/latex/bar/bar.sty'' = ''bar.sty''"
  by (simp add: fileName_of_def)

lemma sty_skipped: "\<not> skipped ''foo/tex/latex/bar/bar.sty''"
  by (simp add: skipped_def)

lemma sty_targetDir:
  "tex_targetDir pkg ''foo/tex/latex/bar/bar.sty'' = ''/texlive/texmf-dist/tex/latex/bar''"
  by (simp add: tex_targetDir_def)

lemma pfb_ext: "ext_of ''fonts/type1/public/bar/bar.pfb'' = ''.pfb''"
  by (simp add: ext_of_def substring_from_def index_or_0_def toLowerCase_def
                upper_letters_def lower_letters_def)

lemma pfb_fileName: "fileName_of ''fonts/type1/public/bar/bar.pfb'' = ''bar.pfb''"
  by (simp add: fileName_of_def)

lemma pfb_skipped: "\<not> skipped ''fonts/type1/public/bar/bar.pfb''"
  by (simp add: skipped_def)

lemma pfb_targetDir:
  "font_targetDir pkg ''fonts/type1/public/bar/bar.pfb'' ''.pfb'' =
   ''/texlive/texmf-dist/fonts/type1/public/bar''"
  by (simp add: font_targetDir_def fontsMatch_def fonts_here_def font_kinds_def
                substring_def index_or_0_def)

lemma processZip_files_sty:
  "processZip_files [(''foo/tex/latex/bar/bar.sty'', c)] pkg =
   Some \<lparr>name = pkg,
         files = [(''/texlive/texmf-dist/tex/latex/bar/bar.sty'',
                   \<lparr>content = decode c, encoding = ''text''\<rparr>)],
         totalFiles = 1,
         dependencies = filter (\<lambda>d. Str d \<noteq> pkg) (scan_deps [] (decode c))\<rparr>"
  by (simp add: processZip_files_def processZip_entry_def sty_ext sty_fileName sty_skipped
                sty_targetDir texExtensions_def Let_def)

lemma processZip_files_pfb:
  "processZip_files [(''fonts/type1/public/bar/bar.pfb'', bs)] pkg =
   Some \<lparr>name = pkg,
         files = [(''/texlive/texmf-dist/fonts/type1/public/bar/bar.pfb'',
                   \<lparr>content = arrayBufferToBase64 bs, encoding = ''base64''\<rparr>)],
         totalFiles = 1, dependencies = []\<rparr>"
  by (simp add: processZip_files_def processZip_entry_def pfb_ext pfb_fileName pfb_skipped
                pfb_targetDir texExtensions_def fontExtensions_def Let_def)

text \<open>
  C2. A ZIP whose only entry is \<open>foo/tex/latex/bar/bar.sty\<close> is decoded to exactly one
  file, at the path \<open>/texlive/texmf-dist/tex/latex/bar/bar.sty\<close>, with the decoded text
  and the encoding \<open>text\<close>. A ZIP whose only entry is \<open>fonts/type1/public/bar/bar.pfb\<close>,
  with any bytes \<open>bs\<close>, is decoded to one file at
  \<open>/texlive/texmf-dist/fonts/type1/public/bar/bar.pfb\<close> with the encoding \<open>base64\<close>, and
  base64-decoding its content gives \<open>bs\<close> again.
\<close>

theorem processZip_roundtrip:
  "(unzipSync w zipBuffer = Inr [(''foo/tex/latex/bar/bar.sty'', c)] \<longrightarrow>
      (\<exists>r. processZip w zipBuffer pkgName = Inr (Some r) \<and>
           files r = [(''/texlive/texmf-dist/tex/latex/bar/bar.sty'',
                       \<lparr>content = decode c, encoding = ''text''\<rparr>)] \<and>
           totalFiles r = 1)) \<and>
   (unzipSync w zipBuffer = Inr [(''fonts/type1/public/bar/bar.pfb'', bs)] \<longrightarrow>
      (\<exists>r t. processZip w zipBuffer pkgName = Inr (Some r) \<and>
             files r = [(''/texlive/texmf-dist/fonts/type1/public/bar/bar.pfb'',
                         \<lparr>content = t, encoding = ''base64''\<rparr>)] \<and>
             totalFiles r = 1 \<and>
             base64_decode t = Some bs))"
  by (simp add: processZip_def processZip_files_sty processZip_files_pfb base64_roundtrip)

theorem processZip_roundtrip_witness:
  "unzipSync (world_of_zip [(''foo/tex/latex/bar/bar.sty'', encode ''x'')]) [] =
     Inr [(''foo/tex/latex/bar/bar.sty'', encode ''x'')] \<and>
   (\<exists>r. processZip (world_of_zip [(''foo/tex/latex/bar/bar.sty'', encode ''x'')]) []
          (Str ''bar'') = Inr (Some r) \<and>
        files r = [(''/texlive/texmf-dist/tex/latex/bar/bar.sty'',
                    \<lparr>content = ''x'', encoding = ''text''\<rparr>)] \<and>
        totalFiles r = 1) \<and>
   unzipSync (world_of_zip [(''fonts/type1/public/bar/bar.pfb'', [1, 2, 255])]) [] =
     Inr [(''fonts/type1/public/bar/bar.pfb'', [1, 2, 255])] \<and>
   (\<exists>r t. processZip (world_of_zip [(''fonts/type1/public/bar/bar.pfb'', [1, 2, 255])]) []
            (Str ''bar'') = Inr (Some r) \<and>
          files r = [(''/texlive/texmf-dist/fonts/type1/public/bar/bar.pfb'',
                      \<lparr>content = t, encoding = ''base64''\<rparr>)] \<and>
          totalFiles r = 1 \<and>
          base64_decode t = Some [1, 2, 255])"
  using processZip_roundtrip
          [of "world_of_zip [(''foo/tex/latex/bar/bar.sty'', encode ''x'')]" "[]"
              "encode ''x''" "Str ''bar''"]
        processZip_roundtrip
          [of "world_of_zip [(''fonts/type1/public/bar/bar.pfb'', [1, 2, 255])]" "[]" _
              "Str ''bar''" "[1, 2, 255]"]
  by (simp add: world_of_zip_def decode_encode)

subsection \<open>Validation of the package name\<close>

text \<open>
  C3. A package name whose length is outside [2,50], or that contains a character
  outside \<open>[A-Za-z0-9_-]\<close>, is answered by each of the three handlers (processed fetch,
  raw TexLive passthrough, registry metadata) with a status-400 JSON error response,
  and the state is returned as it was: the log has no new fetch, bucket read or bucket
  write.
\<close>

theorem invalid_name_400:
  assumes "length n < 2 \<or> length n > 50 \<or>
           (\<exists>c \<in> set n. c \<notin> set ''abcdefghijklmnopqrstuvwxyzABCDEFGHIJKLMNOPQRSTUVWXYZ0123456789_-'')"
  shows "\<forall>h \<in> {handleCtanFetch, handleTexLiveProxy, handleCtanPkgInfo}.
           snd (h w n s) = s \<and>
           rstatus (fst (h w n s)) = 400 \<and>
           map_of (rheaders (fst (h w n s))) ''Content-Type'' = Some ''application/json'' \<and>
           (rbody (fst (h w n s)) = Text ''{\"error\":\"Invalid package name\"}'' \<or>
            rbody (fst (h w n s)) = Text ''{\"error\":\"Invalid package name characters\"}'')"
proof -
  have bad: "bad_length n \<or> bad_characters n"
    using assms
    by (auto simp: bad_length_def bad_characters_def lower_letters_def upper_letters_def
                   digits_def)
  have e1: "stringify (error_json ''Invalid package name'') = ''{\"error\":\"Invalid package name\"}''"
    by (simp add: error_json_def quote_def escape_char_def)
  have e2: "stringify (error_json ''Invalid package name characters'') =
            ''{\"error\":\"Invalid package name characters\"}''"
    by (simp add: error_json_def quote_def escape_char_def)
  have "snd (handleCtanFetch w n s) = s \<and> rstatus (fst (handleCtanFetch w n s)) = 400 \<and>
        map_of (rheaders (fst (handleCtanFetch w n s))) ''Content-Type'' = Some ''application/json'' \<and>
        (rbody (fst (handleCtanFetch w n s)) = Text ''{\"error\":\"Invalid package name\"}'' \<or>
         rbody (fst (handleCtanFetch w n s)) = Text ''{\"error\":\"Invalid package name characters\"}'')"
    using bad by (auto simp: handleCtanFetch_def jsonResponse_def e1 e2)
  moreover
  have "snd (handleTexLiveProxy w n s) = s \<and> rstatus (fst (handleTexLiveProxy w n s)) = 400 \<and>
        map_of (rheaders (fst (handleTexLiveProxy w n s))) ''Content-Type'' = Some ''application/json'' \<and>
        (rbody (fst (handleTexLiveProxy w n s)) = Text ''{\"error\":\"Invalid package name\"}'' \<or>
         rbody (fst (handleTexLiveProxy w n s)) = Text ''{\"error\":\"Invalid package name characters\"}'')"
    using bad by (auto simp: handleTexLiveProxy_def jsonResponse_def e1 e2)
  moreover
  have "snd (handleCtanPkgInfo w n s) = s \<and> rstatus (fst (handleCtanPkgInfo w n s)) = 400 \<and>
        map_of (rheaders (fst (handleCtanPkgInfo w n s))) ''Content-Type'' = Some ''application/json'' \<and>
        (rbody (fst (handleCtanPkgInfo w n s)) = Text ''{\"error\":\"Invalid package name\"}'' \<or>
         rbody (fst (handleCtanPkgInfo w n s)) = Text ''{\"error\":\"Invalid package name characters\"}'')"
    using bad by (auto simp: handleCtanPkgInfo_def jsonResponse_def e1 e2)
  ultimately show ?thesis by blast
qed

theorem invalid_name_400_witness:
  "length ''a'' < 2 \<and>
   snd (handleCtanFetch world_down ''a'' state_empty) = state_empty \<and>
   rstatus (fst (handleCtanFetch world_down ''a'' state_empty)) = 400 \<and>
   snd (handleTexLiveProxy world_down ''a'' state_empty) = state_empty \<and>
   rstatus (fst (handleTexLiveProxy world_down ''a'' state_empty)) = 400 \<and>
   snd (handleCtanPkgInfo world_down ''a'' state_empty) = state_empty \<and>
   rstatus (fst (handleCtanPkgInfo world_down ''a'' state_empty)) = 400"
  using invalid_name_400 [of "''a''" world_down state_empty] by simp

subsection \<open>The fallback chain, stage by stage\<close>

lemma truthy_Some: "truthy v \<Longrightarrow> \<exists>t. v = Some t \<and> t \<noteq> []"
  by (cases v) (simp_all add: truthy_def)

lemma startsWith_append: "startsWith (p @ r) p"
  by (induction p) simp_all

lemma includes_str_startsWith: "startsWith t p \<Longrightarrow> includes_str t p"
  by (cases t) (auto elim: startsWith.elims)

lemma includes_str_append: "includes_str (a @ p @ r) p"
proof (induction a)
  case Nil
  show ?case by (simp add: includes_str_startsWith startsWith_append)
next
  case (Cons c a)
  then show ?case by simp
qed

lemma tds_url_includes: "includes_str (tds_url t) ''.tds.zip''"
  using includes_str_append [of "''https://mirrors.ctan.org'' @ t" "''.tds.zip''" "[]"]
  by (simp add: tds_url_def)

lemma downloadUrl_of_attempts:
  "downloadUrl_of info = (case tds_attempts info of [] \<Rightarrow> None | u # us \<Rightarrow> Some u)"
  by (auto simp: downloadUrl_of_def tds_attempts_def dest!: truthy_Some)

lemma tds_attempts_rest:
  "tds_attempts info = u # us \<Longrightarrow>
   us = (if truthy (ctan_path info) \<and> \<not> includes_str u ''.tds.zip''
         then [tds_url (the (ctan_path info))] else [])"
  by (auto simp: tds_attempts_def tds_url_includes split: if_splits)

lemma tryCtanTdsZip_stage: "tryCtanTdsZip w pkg s = stage w pkg tds_attempts s"
proof -
  have main: "(case downloadUrl_of info of
          None \<Rightarrow> (None, s1)
        | Some downloadUrl \<Rightarrow>
            (case fetch w downloadUrl s1 of
               (Inl e, s2) \<Rightarrow> (None, s2)
             | (Inr resp, s2) \<Rightarrow>
                 if \<not> ok resp then
                   (if truthy (ctan_path info) \<and>
                       \<not> includes_str downloadUrl ''.tds.zip'' then
                      (case fetch w (tds_url (the (ctan_path info))) s2 of
                         (Inl e, s3) \<Rightarrow> (None, s3)
                       | (Inr altResp, s3) \<Rightarrow>
                           if ok altResp then
                             (caught (processZip w (arrayBuffer altResp) pkg), s3)
                           else (None, s3))
                    else (None, s2))
                 else (caught (processZip w (arrayBuffer resp) pkg), s2)))
      = first_success w pkg (tds_attempts info) s1" for info s1
  proof (cases "tds_attempts info")
    case Nil
    then show ?thesis by (simp add: downloadUrl_of_attempts)
  next
    case (Cons u us)
    show ?thesis
    proof (cases "truthy (ctan_path info) \<and> \<not> includes_str u ''.tds.zip''")
      case True
      with tds_attempts_rest [OF Cons] have "us = [tds_url (the (ctan_path info))]" by simp
      with Cons True show ?thesis
        by (simp add: downloadUrl_of_attempts fetch_def split: sum.splits)
    next
      case False
      with tds_attempts_rest [OF Cons] have "us = []" by simp
      with Cons False show ?thesis
        by (auto simp: downloadUrl_of_attempts fetch_def split: sum.splits)
    qed
  qed
  show ?thesis
    unfolding tryCtanTdsZip_def stage_def
    by (simp only: main) (simp add: fetch_def split: sum.splits)
qed

lemma tryCtanSourceZip_stage: "tryCtanSourceZip w pkg s = stage w pkg source_attempts s"
  unfolding tryCtanSourceZip_def stage_def source_attempts_def
  by (simp add: fetch_def split: sum.splits)

subsection \<open>Traces of the stages and of the chain\<close>

lemma first_success_state:
  "\<exists>k \<le> length urls. snd (first_success w pkg urls s) = s\<lparr>log := log s @ map Fetch (take k urls)\<rparr>"
proof (induction urls arbitrary: s)
  case Nil
  show ?case by simp
next
  case (Cons u urls)
  show ?case
  proof (cases "fetch_reply w (length (log s)) u")
    case (Inl e)
    then have "snd (first_success w pkg (u # urls) s) = s\<lparr>log := log s @ map Fetch (take 1 (u # urls))\<rparr>"
      by (simp add: fetch_def)
    then show ?thesis by (intro exI [of _ 1]) simp
  next
    case (Inr resp)
    show ?thesis
    proof (cases "ok resp")
      case True
      with Inr have "snd (first_success w pkg (u # urls) s) = s\<lparr>log := log s @ map Fetch (take 1 (u # urls))\<rparr>"
        by (simp add: fetch_def)
      then show ?thesis by (intro exI [of _ 1]) simp
    next
      case False
      from Cons.IH [of "s\<lparr>log := log s @ [Fetch u]\<rparr>"] obtain k where
        k: "k \<le> length urls"
           "snd (first_success w pkg urls (s\<lparr>log := log s @ [Fetch u]\<rparr>)) =
            s\<lparr>log := log s @ [Fetch u]\<rparr>\<lparr>log := log (s\<lparr>log := log s @ [Fetch u]\<rparr>) @ map Fetch (take k urls)\<rparr>"
        by blast
      with Inr False have "snd (first_success w pkg (u # urls) s) = s\<lparr>log := log s @ map Fetch (take (Suc k) (u # urls))\<rparr>"
        by (simp add: fetch_def)
      with k(1) show ?thesis by (intro exI [of _ "Suc k"]) simp
    qed
  qed
qed

lemma stage_state:
  "\<exists>urls. snd (stage w pkg plan s) = s\<lparr>log := log s @ Fetch (registry_url (text_of pkg)) # map Fetch urls\<rparr>"
proof -
  have init: "s\<lparr>log := log s @ [Fetch (registry_url (text_of pkg))]\<rparr> = s\<lparr>log := log s @ Fetch (registry_url (text_of pkg)) # map Fetch []\<rparr>"
    by simp
  have step: "\<exists>urls. snd (first_success w pkg us (s\<lparr>log := log s @ [Fetch (registry_url (text_of pkg))]\<rparr>)) =
      s\<lparr>log := log s @ Fetch (registry_url (text_of pkg)) # map Fetch urls\<rparr>" for us
    using first_success_state [of us w pkg "s\<lparr>log := log s @ [Fetch (registry_url (text_of pkg))]\<rparr>"]
    by auto
  show ?thesis
    unfolding stage_def
    using step
    by (auto simp: fetch_def split: sum.splits intro: exI [of _ "[]"])
qed

lemma handleCtanFetch_miss:
  assumes "\<not> bad_length n" "\<not> bad_characters n" "bucket s (cacheKey_of n) = None"
  shows "handleCtanFetch w n s =
     (let s2 = s\<lparr>log := log s @ [BucketGet (cacheKey_of n), Fetch (registry_url (text_of (alias_of n)))]\<rparr>
      in case fetch_reply w (Suc (length (log s))) (registry_url (text_of (alias_of n))) of
           Inl e \<Rightarrow> (jsonResponse (error_json (''CTAN fetch error: '' @ e)) 500, s2)
         | Inr infoResponse \<Rightarrow>
             (case parent_of infoResponse (alias_of n) of
                Inl e \<Rightarrow> (jsonResponse (error_json (''CTAN fetch error: '' @ e)) 500, s2)
              | Inr parentPkg \<Rightarrow> ctan_chain w (cacheKey_of n) parentPkg (alias_of n) s2))"
  using assms
  by (simp add: handleCtanFetch_def bucket_get_def fetch_def Let_def split: sum.splits)

lemma ctan_chain_shape:
  "(\<exists>r urls. fst (tryCtanTdsZip w parentPkg s) = Some r \<and>
      ctan_chain w key parentPkg pkgName s =
        (miss_response (stringify (result_json r)) ''ctan'',
         s\<lparr>bucket := (bucket s)(key \<mapsto> Text (stringify (result_json r))),
           log := log s @ Fetch (registry_url (text_of parentPkg)) # map Fetch urls @
                  [BucketPut key (Text (stringify (result_json r)))]\<rparr>)) \<or>
   (\<exists>r urls urls'. fst (tryCtanTdsZip w parentPkg s) = None \<and>
      fst (tryCtanSourceZip w pkgName (snd (tryCtanTdsZip w parentPkg s))) = Some r \<and>
      ctan_chain w key parentPkg pkgName s =
        (miss_response (stringify (result_json r)) ''ctan-source'',
         s\<lparr>bucket := (bucket s)(key \<mapsto> Text (stringify (result_json r))),
           log := log s @ Fetch (registry_url (text_of parentPkg)) # map Fetch urls @
                  Fetch (registry_url (text_of pkgName)) # map Fetch urls' @
                  [BucketPut key (Text (stringify (result_json r)))]\<rparr>)) \<or>
   (\<exists>urls urls'. fst (tryCtanTdsZip w parentPkg s) = None \<and>
      fst (tryCtanSourceZip w pkgName (snd (tryCtanTdsZip w parentPkg s))) = None \<and>
      ctan_chain w key parentPkg pkgName s =
        (jsonResponse (error_json ''Package not found'') 404,
         s\<lparr>log := log s @ Fetch (registry_url (text_of parentPkg)) # map Fetch urls @
                  Fetch (registry_url (text_of pkgName)) # map Fetch urls'\<rparr>))"
proof -
  obtain res1 s1 where t1: "tryCtanTdsZip w parentPkg s = (res1, s1)"
    by (cases "tryCtanTdsZip w parentPkg s")
  obtain urls where u1: "s1 = s\<lparr>log := log s @ Fetch (registry_url (text_of parentPkg)) # map Fetch urls\<rparr>"
    using stage_state [of w parentPkg tds_attempts s] t1 by (auto simp: tryCtanTdsZip_stage)
  show ?thesis
  proof (cases res1)
    case (Some r)
    with t1 u1 have "ctan_chain w key parentPkg pkgName s =
        (miss_response (stringify (result_json r)) ''ctan'',
         s\<lparr>bucket := (bucket s)(key \<mapsto> Text (stringify (result_json r))),
           log := log s @ Fetch (registry_url (text_of parentPkg)) # map Fetch urls @
                  [BucketPut key (Text (stringify (result_json r)))]\<rparr>)"
      by (simp add: ctan_chain_def bucket_put_def Let_def)
    with t1 Some show ?thesis by auto
  next
    case None
    obtain res2 s2 where t2: "tryCtanSourceZip w pkgName s1 = (res2, s2)"
      by (cases "tryCtanSourceZip w pkgName s1")
    obtain urls' where u2: "s2 = s1\<lparr>log := log s1 @ Fetch (registry_url (text_of pkgName)) # map Fetch urls'\<rparr>"
      using stage_state [of w pkgName source_attempts s1] t2 by (auto simp: tryCtanSourceZip_stage)
    show ?thesis
    proof (cases res2)
      case (Some r)
      with t1 t2 u1 u2 None have "ctan_chain w key parentPkg pkgName s =
        (miss_response (stringify (result_json r)) ''ctan-source'',
         s\<lparr>bucket := (bucket s)(key \<mapsto> Text (stringify (result_json r))),
           log := log s @ Fetch (registry_url (text_of parentPkg)) # map Fetch urls @
                  Fetch (registry_url (text_of pkgName)) # map Fetch urls' @
                  [BucketPut key (Text (stringify (result_json r)))]\<rparr>)"
        by (simp add: ctan_chain_def bucket_put_def Let_def)
      with t1 t2 None Some show ?thesis by auto
    next
      case N2: None
      with t1 t2 u1 u2 None have "ctan_chain w key parentPkg pkgName s =
        (jsonResponse (error_json ''Package not found'') 404,
         s\<lparr>log := log s @ Fetch (registry_url (text_of parentPkg)) # map Fetch urls @
                  Fetch (registry_url (text_of pkgName)) # map Fetch urls'\<rparr>)"
        by (simp add: ctan_chain_def)
      with t1 t2 None N2 show ?thesis by auto
    qed
  qed
qed

lemma ctan_chain_log_head:
  "\<exists>es. log (snd (ctan_chain w key parentPkg pkgName s)) =
         log s @ Fetch (registry_url (text_of parentPkg)) # es"
  using ctan_chain_shape [of w parentPkg s key pkgName] by auto

lemma processZip_files_Some:
  "processZip_files entries pkg = Some r \<Longrightarrow>
   files r \<noteq> [] \<and> totalFiles r = length (files r) \<and> name r = pkg"
  by (auto simp: processZip_files_def Let_def split: if_splits)

lemma caught_processZip_Some:
  "caught (processZip w zipBuffer pkg) = Some r \<Longrightarrow>
   files r \<noteq> [] \<and> totalFiles r = length (files r) \<and> name r = pkg"
  by (auto simp: caught_def processZip_def split: sum.splits dest: processZip_files_Some)

lemma first_success_Some:
  "fst (first_success w pkg urls s) = Some r \<Longrightarrow>
   files r \<noteq> [] \<and> totalFiles r = length (files r) \<and> name r = pkg"
proof (induction urls arbitrary: s)
  case Nil
  then show ?case by simp
next
  case (Cons u urls)
  then show ?case
    by (auto simp: fetch_def split: sum.splits if_splits dest: caught_processZip_Some)
qed

lemma stage_Some:
  "fst (stage w pkg plan s) = Some r \<Longrightarrow>
   files r \<noteq> [] \<and> totalFiles r = length (files r) \<and> name r = pkg"
  by (auto simp: stage_def fetch_def split: sum.splits if_splits dest: first_success_Some)

lemma handleCtanFetch_stages:
  assumes "\<not> bad_length n" and "\<not> bad_characters n"
    and "bucket s (cacheKey_of n) = None"
    and "fetch_reply w (Suc (length (log s))) (registry_url (text_of (alias_of n))) =
           Inr infoResponse"
    and "parent_of infoResponse (alias_of n) = Inr parentPkg"
  shows "handleCtanFetch w n s =
     (case stage w parentPkg tds_attempts
             (s\<lparr>log := log s @ [BucketGet (cacheKey_of n),
                                  Fetch (registry_url (text_of (alias_of n)))]\<rparr>) of
        (Some r, s3) \<Rightarrow>
          (miss_response (stringify (result_json r)) ''ctan'',
           bucket_put (cacheKey_of n) (Text (stringify (result_json r))) s3)
      | (None, s3) \<Rightarrow>
          (case stage w (alias_of n) source_attempts s3 of
             (Some r, s4) \<Rightarrow>
               (miss_response (stringify (result_json r)) ''ctan-source'',
                bucket_put (cacheKey_of n) (Text (stringify (result_json r))) s4)
           | (None, s4) \<Rightarrow> (jsonResponse (error_json ''Package not found'') 404, s4)))"
proof -
  let ?s2 = "s\<lparr>log := log s @ [BucketGet (cacheKey_of n),
                                Fetch (registry_url (text_of (alias_of n)))]\<rparr>"
  obtain res1 s3 where t1: "stage w parentPkg tds_attempts ?s2 = (res1, s3)"
    by (cases "stage w parentPkg tds_attempts ?s2")
  obtain res2 s4 where t2: "stage w (alias_of n) source_attempts s3 = (res2, s4)"
    by (cases "stage w (alias_of n) source_attempts s3")
  have "handleCtanFetch w n s = ctan_chain w (cacheKey_of n) parentPkg (alias_of n) ?s2"
    by (simp add: handleCtanFetch_miss [OF assms(1-3)] assms(4,5))
  then show ?thesis
    by (cases res1; cases res2)
       (simp_all add: ctan_chain_def tryCtanTdsZip_stage tryCtanSourceZip_stage t1 t2 Let_def)
qed

lemma first_success_first:
  "\<exists>es. log (snd (first_success w pkg (u # us) s)) = log s @ Fetch u # es"
  using first_success_state [of us w pkg "s\<lparr>log := log s @ [Fetch u]\<rparr>"]
  by (auto simp: fetch_def split: sum.splits)

lemma stage_plan:
  assumes "fetch_reply w (length (log s)) (registry_url (text_of pkg)) = Inr resp"
    and "ok resp" and "json_reply resp = Inr info" and "\<not> errors info"
  shows "stage w pkg plan s =
           first_success w pkg (plan info) (s\<lparr>log := log s @ [Fetch (registry_url (text_of pkg))]\<rparr>)"
  using assms by (simp add: stage_def fetch_def)


lemma stage_first_attempt:
  assumes "fetch_reply w (length (log s)) (registry_url (text_of pkg)) = Inr resp"
    and "ok resp" and "json_reply resp = Inr info" and "\<not> errors info"
    and "plan info = u # us"
  shows "\<exists>es. log (snd (stage w pkg plan s)) =
                log s @ [Fetch (registry_url (text_of pkg)), Fetch u] @ es"
  using first_success_first
          [of w pkg u us "s\<lparr>log := log s @ [Fetch (registry_url (text_of pkg))]\<rparr>"]
  by (auto simp: stage_plan [OF assms(1-4)] assms(5))

lemma stage_log_head:
  "\<exists>es. log (snd (stage w pkg plan s)) = log s @ Fetch (registry_url (text_of pkg)) # es"
  using stage_state [of w pkg plan s] by auto

lemma stage_lookup_unusable:
  assumes "fetch_reply w (length (log s)) (registry_url (text_of pkg)) = Inr resp"
    and "\<not> ok resp \<or> (\<exists>info. json_reply resp = Inr info \<and> errors info)"
  shows "stage w pkg plan s = (None, s\<lparr>log := log s @ [Fetch (registry_url (text_of pkg))]\<rparr>)"
  using assms by (auto simp add: stage_def fetch_def split: sum.splits)

subsection \<open>Aliases\<close>

lemma alias_tikz: "alias_of ''tikz'' = Str ''pgf''"
  by (simp add: alias_of_def bootstrapAliases_def truthy_value_def)

lemma alias_etex: "alias_of ''etex'' = Str ''etex-pkg''"
  by (simp add: alias_of_def bootstrapAliases_def truthy_value_def)

lemma alias_pgf: "alias_of ''pgf'' = Str ''pgf''"
  by (simp add: alias_of_def bootstrapAliases_def truthy_value_def object_prototype_members_def)

lemma alias_other:
  "n \<notin> {''etex'', ''tikz''} \<Longrightarrow> n \<notin> set object_prototype_members \<Longrightarrow> alias_of n = Str n"
  by (simp add: alias_of_def bootstrapAliases_def truthy_value_def)

lemma alias_constructor: "alias_of ''constructor'' = Inherited ''constructor''"
  by (simp add: alias_of_def bootstrapAliases_def truthy_value_def object_prototype_members_def)

lemma valid_constructor: "\<not> bad_length ''constructor''" "\<not> bad_characters ''constructor''"
  by (simp_all add: bad_length_def bad_characters_def lower_letters_def)

lemma ctan_lookup_name:
  assumes "\<not> bad_length n" "\<not> bad_characters n" "bucket s (cacheKey_of n) = None"
  shows "\<exists>es. log (snd (handleCtanFetch w n s)) =
              log s @ BucketGet (cacheKey_of n) # Fetch (registry_url (text_of (alias_of n))) # es"
proof -
  let ?s2 = "s\<lparr>log := log s @ [BucketGet (cacheKey_of n),
                                   Fetch (registry_url (text_of (alias_of n)))]\<rparr>"
  have "\<exists>es. log (snd (ctan_chain w (cacheKey_of n) p (alias_of n) ?s2)) =
              log s @ BucketGet (cacheKey_of n) # Fetch (registry_url (text_of (alias_of n))) # es"
    for p
    using ctan_chain_log_head [of w "cacheKey_of n" p "alias_of n" ?s2] by auto
  then show ?thesis
    by (auto simp: handleCtanFetch_miss [OF assms] Let_def split: sum.splits)
qed

lemma ctan_lookup_tikz_etex:
  "alias_of ''tikz'' = Str ''pgf'' \<and> alias_of ''etex'' = Str ''etex-pkg'' \<and>
   registry_url (text_of (alias_of ''tikz'')) = ''https://ctan.org/json/2.0/pkg/pgf'' \<and>
   registry_url (text_of (alias_of ''etex'')) = ''https://ctan.org/json/2.0/pkg/etex-pkg''"
  by (simp add: alias_tikz alias_etex text_of_def registry_url_def)

text \<open>
  C7. On a cache miss \<open>handleCtanFetch\<close> looks the name \<open>alias_of requestedPkg\<close> up
  (\<open>ctan_lookup_name\<close>): \<open>pgf\<close> for \<open>tikz\<close>, \<open>etex-pkg\<close> for \<open>etex\<close>, and the name itself for
  every name that is neither in the table nor a member of \<open>Object.prototype\<close>
  (\<open>alias_other\<close>). For a member of the prototype the code does not do what the claim
  says: the request \<open>constructor\<close>, which is not in the alias table, is looked up under
  the text of the inherited function and never under \<open>constructor\<close>.
\<close>

theorem constructor_lookup:
  "log (snd (handleCtanFetch world_down ''constructor'' state_empty)) =
     [BucketGet ''ctan-cache/v5/constructor.json'',
      Fetch ''https://ctan.org/json/2.0/pkg/function Object() { [native code] }''] \<and>
   Fetch ''https://ctan.org/json/2.0/pkg/constructor''
     \<notin> set (log (snd (handleCtanFetch world_down ''constructor'' state_empty)))"
proof -
  have m: "bucket state_empty (cacheKey_of ''constructor'') = None"
    by (simp add: state_empty_def)
  show ?thesis
    unfolding handleCtanFetch_miss [OF valid_constructor m] alias_constructor
    by (simp add: world_down_def state_empty_def cacheKey_of_def CTAN_CACHE_VERSION_def
                  registry_url_def text_of_def)
qed

subsection \<open>A failed registry lookup\<close>

text \<open>
  C8. On a cache miss for a valid name, let the registry lookup of \<open>handleCtanFetch\<close> be
  answered with a non-success status or with an error payload. Then the parent
  package stays the alias-resolved requested name, and the handler does not abort: it
  runs the TDS stage and, when that has no result, the source stage, both for this
  name, and answers 200 with a result that carries this name, or 404. The log shows
  it: after the lookup of the handler comes the lookup of the TDS stage for the same
  name; when that one gives metadata with an install path, the archive of this path is
  fetched next; when it is answered without a success status, the lookup of the source
  stage follows, again for the same name.
\<close>

theorem lookup_failure_falls_through:
  assumes "\<not> bad_length n" and "\<not> bad_characters n"
    and "bucket s (cacheKey_of n) = None"
    and "fetch_reply w (Suc (length (log s))) (registry_url (text_of (alias_of n))) = Inr infoResponse"
    and "\<not> ok infoResponse \<or> (\<exists>info. json_reply infoResponse = Inr info \<and> errors info)"
  shows "parent_of infoResponse (alias_of n) = Inr (alias_of n) \<and>
         handleCtanFetch w n s =
           ctan_chain w (cacheKey_of n) (alias_of n) (alias_of n)
             (s\<lparr>log := log s @ [BucketGet (cacheKey_of n),
                                  Fetch (registry_url (text_of (alias_of n)))]\<rparr>) \<and>
         handleCtanFetch w n s =
           (case stage w (alias_of n) tds_attempts
                   (s\<lparr>log := log s @ [BucketGet (cacheKey_of n),
                                        Fetch (registry_url (text_of (alias_of n)))]\<rparr>) of
              (Some r, s3) \<Rightarrow>
                (miss_response (stringify (result_json r)) ''ctan'',
                 bucket_put (cacheKey_of n) (Text (stringify (result_json r))) s3)
            | (None, s3) \<Rightarrow>
                (case stage w (alias_of n) source_attempts s3 of
                   (Some r, s4) \<Rightarrow>
                     (miss_response (stringify (result_json r)) ''ctan-source'',
                      bucket_put (cacheKey_of n) (Text (stringify (result_json r))) s4)
                 | (None, s4) \<Rightarrow> (jsonResponse (error_json ''Package not found'') 404, s4))) \<and>
         (rstatus (fst (handleCtanFetch w n s)) = 404 \<or>
          rstatus (fst (handleCtanFetch w n s)) = 200 \<and>
          (\<exists>r. name r = alias_of n \<and> files r \<noteq> [] \<and>
               rbody (fst (handleCtanFetch w n s)) = Text (stringify (result_json r)))) \<and>
         (\<exists>es. log (snd (handleCtanFetch w n s)) =
                 log s @ [BucketGet (cacheKey_of n),
                          Fetch (registry_url (text_of (alias_of n))),
                          Fetch (registry_url (text_of (alias_of n)))] @ es) \<and>
         (\<forall>resp info path.
            fetch_reply w (length (log s) + 2) (registry_url (text_of (alias_of n))) = Inr resp \<and>
            ok resp \<and> json_reply resp = Inr info \<and> \<not> errors info \<and>
            install info = Some path \<and> path \<noteq> [] \<longrightarrow>
            (\<exists>es. log (snd (handleCtanFetch w n s)) =
                    log s @ [BucketGet (cacheKey_of n),
                             Fetch (registry_url (text_of (alias_of n))),
                             Fetch (registry_url (text_of (alias_of n))),
                             Fetch (install_url path)] @ es)) \<and>
         (\<forall>resp.
            fetch_reply w (length (log s) + 2) (registry_url (text_of (alias_of n))) = Inr resp \<and>
            \<not> ok resp \<longrightarrow>
            (\<exists>es. log (snd (handleCtanFetch w n s)) =
                    log s @ [BucketGet (cacheKey_of n),
                             Fetch (registry_url (text_of (alias_of n))),
                             Fetch (registry_url (text_of (alias_of n))),
                             Fetch (registry_url (text_of (alias_of n)))] @ es))"
proof -
  let ?a = "alias_of n"
  let ?key = "cacheKey_of n"
  let ?reg = "registry_url (text_of ?a)"
  let ?s2 = "s\<lparr>log := log s @ [BucketGet ?key, Fetch ?reg]\<rparr>"
  have p: "parent_of infoResponse ?a = Inr ?a"
    using assms(5) by (auto simp: parent_of_def)
  have h: "handleCtanFetch w n s = ctan_chain w ?key ?a ?a ?s2"
    by (simp add: handleCtanFetch_miss [OF assms(1-3)] assms(4) p)
  note st = handleCtanFetch_stages [OF assms(1-4) p]
  obtain res1 s3 where t1: "stage w ?a tds_attempts ?s2 = (res1, s3)"
    by (cases "stage w ?a tds_attempts ?s2")
  obtain res2 s4 where t2: "stage w ?a source_attempts s3 = (res2, s4)"
    by (cases "stage w ?a source_attempts s3")
  from stage_log_head [of w ?a tds_attempts ?s2] t1
  obtain es1 where l1: "log s3 = log s @ [BucketGet ?key, Fetch ?reg, Fetch ?reg] @ es1"
    by auto
  from stage_log_head [of w ?a source_attempts s3] t2
  obtain es2 where l2: "log s4 = log s3 @ Fetch ?reg # es2"
    by auto
  have status: "rstatus (fst (handleCtanFetch w n s)) = 404 \<or>
          rstatus (fst (handleCtanFetch w n s)) = 200 \<and>
          (\<exists>r. name r = ?a \<and> files r \<noteq> [] \<and>
               rbody (fst (handleCtanFetch w n s)) = Text (stringify (result_json r)))"
  proof (cases res1)
    case (Some r)
    with t1 have "fst (stage w ?a tds_attempts ?s2) = Some r" by simp
    from stage_Some [OF this] Some t1 show ?thesis
      by (auto simp add: st miss_response_def)
  next
    case None
    show ?thesis
    proof (cases res2)
      case (Some r)
      with t2 have "fst (stage w ?a source_attempts s3) = Some r" by simp
      from stage_Some [OF this] Some None t1 t2 show ?thesis
        by (auto simp add: st miss_response_def)
    next
      case n2: None
      with None t1 t2 show ?thesis
        by (simp add: st jsonResponse_def)
    qed
  qed
  have logs: "log (snd (handleCtanFetch w n s)) =
                (case res1 of
                   Some r \<Rightarrow> log s3 @ [BucketPut ?key (Text (stringify (result_json r)))]
                 | None \<Rightarrow>
                     (case res2 of
                        Some r \<Rightarrow> log s4 @ [BucketPut ?key (Text (stringify (result_json r)))]
                      | None \<Rightarrow> log s4))"
    by (cases res1; cases res2) (simp_all add: st t1 t2 bucket_put_def)
  have head: "\<exists>es. log (snd (handleCtanFetch w n s)) =
                 log s @ [BucketGet ?key, Fetch ?reg, Fetch ?reg] @ es"
    by (cases res1; cases res2) (simp_all add: logs l1 l2)
  have install: "\<exists>es. log (snd (handleCtanFetch w n s)) =
                    log s @ [BucketGet ?key, Fetch ?reg, Fetch ?reg, Fetch (install_url path)] @ es"
    if "fetch_reply w (length (log s) + 2) ?reg = Inr resp \<and>
        ok resp \<and> json_reply resp = Inr info \<and> \<not> errors info \<and>
        install info = Some path \<and> path \<noteq> []" for resp info path
  proof -
    from that have f: "fetch_reply w (length (log ?s2)) ?reg = Inr resp"
      and o: "ok resp" "json_reply resp = Inr info" "\<not> errors info"
      by simp_all
    from that obtain us where u: "tds_attempts info = install_url path # us"
      by (auto simp add: tds_attempts_def truthy_def)
    from stage_first_attempt [of w ?s2 ?a resp info tds_attempts, OF f o u] t1
    obtain es where "log s3 = log s @ [BucketGet ?key, Fetch ?reg, Fetch ?reg, Fetch (install_url path)] @ es"
      by auto
    then show ?thesis
      by (cases res1; cases res2) (simp_all add: logs l2)
  qed
  have third: "\<exists>es. log (snd (handleCtanFetch w n s)) =
                    log s @ [BucketGet ?key, Fetch ?reg, Fetch ?reg, Fetch ?reg] @ es"
    if "fetch_reply w (length (log s) + 2) ?reg = Inr resp \<and> \<not> ok resp" for resp
  proof -
    from that have f: "fetch_reply w (length (log ?s2)) ?reg = Inr resp"
      and o: "\<not> ok resp \<or> (\<exists>info. json_reply resp = Inr info \<and> errors info)"
      by simp_all
    from stage_lookup_unusable [OF f o, of tds_attempts] t1
    have "res1 = None" and "log s3 = log s @ [BucketGet ?key, Fetch ?reg, Fetch ?reg]"
      by simp_all
    then show ?thesis
      by (cases res2) (simp_all add: logs l2)
  qed
  from p h st status head install third show ?thesis
    by (intro conjI allI impI) blast+
qed

theorem lookup_failure_falls_through_witness:
  "\<not> bad_length ''tikz'' \<and> \<not> bad_characters ''tikz'' \<and>
   bucket state_empty (cacheKey_of ''tikz'') = None \<and>
   fetch_reply world_late (Suc (length (log state_empty)))
     (registry_url (text_of (alias_of ''tikz''))) = Inr reply_503 \<and>
   \<not> ok reply_503 \<and>
   parent_of reply_503 (alias_of ''tikz'') = Inr (Str ''pgf'') \<and>
   fetch_reply world_late (length (log state_empty) + 2)
     (registry_url (text_of (alias_of ''tikz''))) = Inr (reply_info info_pgf) \<and>
   install info_pgf = Some ''/graphics/pgf/base/pgf.tds.zip'' \<and>
   (\<exists>es. log (snd (handleCtanFetch world_late ''tikz'' state_empty)) =
           [BucketGet ''ctan-cache/v5/tikz.json'',
            Fetch ''https://ctan.org/json/2.0/pkg/pgf'',
            Fetch ''https://ctan.org/json/2.0/pkg/pgf'',
            Fetch ''https://mirrors.ctan.org/install/graphics/pgf/base/pgf.tds.zip''] @ es) \<and>
   rstatus (fst (handleCtanFetch world_late ''tikz'' state_empty)) = 200 \<and>
   (\<exists>r. name r = Str ''pgf'' \<and> files r \<noteq> [] \<and>
        rbody (fst (handleCtanFetch world_late ''tikz'' state_empty)) =
          Text (stringify (result_json r))) \<and>
   fetch_reply world_503 (Suc (length (log state_empty)))
     (registry_url (text_of (alias_of ''tikz''))) = Inr reply_503 \<and>
   fetch_reply world_503 (length (log state_empty) + 2)
     (registry_url (text_of (alias_of ''tikz''))) = Inr reply_503 \<and>
   (\<exists>es. log (snd (handleCtanFetch world_503 ''tikz'' state_empty)) =
           [BucketGet ''ctan-cache/v5/tikz.json'',
            Fetch ''https://ctan.org/json/2.0/pkg/pgf'',
            Fetch ''https://ctan.org/json/2.0/pkg/pgf'',
            Fetch ''https://ctan.org/json/2.0/pkg/pgf''] @ es)"
proof -
  have v: "\<not> bad_length ''tikz''" "\<not> bad_characters ''tikz''"
    by (simp_all add: bad_length_def bad_characters_def lower_letters_def)
  have m: "bucket state_empty (cacheKey_of ''tikz'') = None"
    by (simp add: state_empty_def)
  have f: "fetch_reply world_late (Suc (length (log state_empty)))
             (registry_url (text_of (alias_of ''tikz''))) = Inr reply_503"
    by (simp add: world_late_def state_empty_def)
  have o: "\<not> ok reply_503"
    by (simp add: ok_def reply_503_def)
  then have k: "\<not> ok reply_503 \<or> (\<exists>info. json_reply reply_503 = Inr info \<and> errors info)" ..
  have g: "fetch_reply world_late (length (log state_empty) + 2)
             (registry_url (text_of (alias_of ''tikz''))) = Inr (reply_info info_pgf)"
    by (simp add: world_late_def world_pgf_def state_empty_def alias_tikz text_of_def
                  registry_url_def)
  have i: "install info_pgf = Some ''/graphics/pgf/base/pgf.tds.zip''"
    by (simp add: info_pgf_def)
  note T = lookup_failure_falls_through [OF v m f k]
  have pre: "fetch_reply world_late (length (log state_empty) + 2)
               (registry_url (text_of (alias_of ''tikz''))) = Inr (reply_info info_pgf) \<and>
             ok (reply_info info_pgf) \<and> json_reply (reply_info info_pgf) = Inr info_pgf \<and>
             \<not> errors info_pgf \<and>
             install info_pgf = Some ''/graphics/pgf/base/pgf.tds.zip'' \<and>
             ''/graphics/pgf/base/pgf.tds.zip'' \<noteq> []"
    using g i by (simp add: ok_def reply_info_def info_pgf_def)
  from T [THEN conjunct2, THEN conjunct2, THEN conjunct2, THEN conjunct2, THEN conjunct2,
          THEN conjunct1, rule_format, OF pre]
  have l: "\<exists>es. log (snd (handleCtanFetch world_late ''tikz'' state_empty)) =
           [BucketGet ''ctan-cache/v5/tikz.json'',
            Fetch ''https://ctan.org/json/2.0/pkg/pgf'',
            Fetch ''https://ctan.org/json/2.0/pkg/pgf'',
            Fetch ''https://mirrors.ctan.org/install/graphics/pgf/base/pgf.tds.zip''] @ es"
    by (simp add: alias_tikz text_of_def registry_url_def cacheKey_of_def CTAN_CACHE_VERSION_def
                  install_url_def state_empty_def)
  have e: "rstatus (fst (handleCtanFetch world_late ''tikz'' state_empty)) = 200"
    by (simp add: handleCtanFetch_def bad_length_def bad_characters_def lower_letters_def
          upper_letters_def digits_def bucket_get_def state_empty_def cacheKey_of_def
          CTAN_CACHE_VERSION_def alias_of_def bootstrapAliases_def truthy_value_def
          object_prototype_members_def fetch_def world_late_def world_pgf_def registry_url_def
          text_of_def parent_of_def ok_def reply_info_def reply_zip_def reply_503_def
          info_pgf_def truthy_def ctan_chain_def tryCtanTdsZip_def downloadUrl_of_def
          install_url_def caught_def processZip_def processZip_files_def processZip_entry_def
          skipped_def ext_of_def substring_from_def index_or_0_def toLowerCase_def
          texExtensions_def miss_response_def bucket_put_def Let_def)
  from T [THEN conjunct2, THEN conjunct2, THEN conjunct2, THEN conjunct1] e
  have r: "\<exists>r. name r = Str ''pgf'' \<and> files r \<noteq> [] \<and>
        rbody (fst (handleCtanFetch world_late ''tikz'' state_empty)) =
          Text (stringify (result_json r))"
    by (simp add: alias_tikz)
  have p: "parent_of reply_503 (alias_of ''tikz'') = Inr (Str ''pgf'')"
    using T [THEN conjunct1] by (simp add: alias_tikz)
  have f5: "fetch_reply world_503 (Suc (length (log state_empty)))
              (registry_url (text_of (alias_of ''tikz''))) = Inr reply_503"
    and g5: "fetch_reply world_503 (length (log state_empty) + 2)
              (registry_url (text_of (alias_of ''tikz''))) = Inr reply_503"
    by (simp_all add: world_503_def)
  note S = lookup_failure_falls_through [OF v m f5 k]
  from S [THEN conjunct2, THEN conjunct2, THEN conjunct2, THEN conjunct2, THEN conjunct2,
          THEN conjunct2, rule_format, OF conjI [OF g5 o]]
  have t: "\<exists>es. log (snd (handleCtanFetch world_503 ''tikz'' state_empty)) =
           [BucketGet ''ctan-cache/v5/tikz.json'',
            Fetch ''https://ctan.org/json/2.0/pkg/pgf'',
            Fetch ''https://ctan.org/json/2.0/pkg/pgf'',
            Fetch ''https://ctan.org/json/2.0/pkg/pgf''] @ es"
    by (simp add: alias_tikz text_of_def registry_url_def cacheKey_of_def CTAN_CACHE_VERSION_def
                  state_empty_def)
  from v m f o p g i l e r f5 g5 t show ?thesis
    by (intro conjI)
qed

lemma handleCtanFetch_shape:
  "snd (handleCtanFetch w n s) = s \<or>
   (\<exists>fs. snd (handleCtanFetch w n s) =
      s\<lparr>log := log s @ BucketGet (cacheKey_of n) # map Fetch fs\<rparr>) \<or>
   (\<exists>fs v. snd (handleCtanFetch w n s) =
      s\<lparr>bucket := (bucket s)(cacheKey_of n \<mapsto> v),
        log := log s @ BucketGet (cacheKey_of n) # map Fetch fs @ [BucketPut (cacheKey_of n) v]\<rparr>)"
proof (cases "bad_length n \<or> bad_characters n")
  case True
  then show ?thesis by (auto simp: handleCtanFetch_def)
next
  case valid: False
  show ?thesis
  proof (cases "bucket s (cacheKey_of n)")
    case (Some obj)
    with valid have "snd (handleCtanFetch w n s) = s\<lparr>log := log s @ BucketGet (cacheKey_of n) # map Fetch []\<rparr>"
      by (simp add: handleCtanFetch_def bucket_get_def)
    then show ?thesis by blast
  next
    case None
    let ?a = "alias_of n"
    let ?s2 = "s\<lparr>log := log s @ [BucketGet (cacheKey_of n), Fetch (registry_url (text_of ?a))]\<rparr>"
    have s2: "?s2 = s\<lparr>log := log s @ BucketGet (cacheKey_of n) # map Fetch [registry_url (text_of ?a)]\<rparr>"
      by simp
    from valid have v: "\<not> bad_length n" "\<not> bad_characters n" by simp_all
    note miss = handleCtanFetch_miss [OF v None, of w]
    show ?thesis
    proof (cases "fetch_reply w (Suc (length (log s))) (registry_url (text_of ?a))")
      case (Inl e)
      with miss have "snd (handleCtanFetch w n s) = ?s2" by (simp add: Let_def)
      with s2 show ?thesis by metis
    next
      case (Inr resp)
      show ?thesis
      proof (cases "parent_of resp ?a")
        case (Inl e)
        with miss Inr have "snd (handleCtanFetch w n s) = ?s2" by (simp add: Let_def)
        with s2 show ?thesis by metis
      next
        case p: (Inr parentPkg)
        with miss Inr have h: "handleCtanFetch w n s = ctan_chain w (cacheKey_of n) parentPkg ?a ?s2"
          by (simp add: Let_def)
        from ctan_chain_shape [of w parentPkg ?s2 "cacheKey_of n" ?a]
        consider
          (a) r urls where "ctan_chain w (cacheKey_of n) parentPkg ?a ?s2 =
            (miss_response (stringify (result_json r)) ''ctan'',
             ?s2\<lparr>bucket := (bucket ?s2)(cacheKey_of n \<mapsto> Text (stringify (result_json r))),
               log := log ?s2 @ Fetch (registry_url (text_of parentPkg)) # map Fetch urls @
                  [BucketPut (cacheKey_of n) (Text (stringify (result_json r)))]\<rparr>)"
        | (b) r urls urls' where "ctan_chain w (cacheKey_of n) parentPkg ?a ?s2 =
            (miss_response (stringify (result_json r)) ''ctan-source'',
             ?s2\<lparr>bucket := (bucket ?s2)(cacheKey_of n \<mapsto> Text (stringify (result_json r))),
               log := log ?s2 @ Fetch (registry_url (text_of parentPkg)) # map Fetch urls @
                  Fetch (registry_url (text_of ?a)) # map Fetch urls' @
                  [BucketPut (cacheKey_of n) (Text (stringify (result_json r)))]\<rparr>)"
        | (c) urls urls' where "ctan_chain w (cacheKey_of n) parentPkg ?a ?s2 =
            (jsonResponse (error_json ''Package not found'') 404,
             ?s2\<lparr>log := log ?s2 @ Fetch (registry_url (text_of parentPkg)) # map Fetch urls @
                  Fetch (registry_url (text_of ?a)) # map Fetch urls'\<rparr>)"
          by blast
        then show ?thesis
        proof cases
          case a
          with h have "snd (handleCtanFetch w n s) =
            s\<lparr>bucket := (bucket s)(cacheKey_of n \<mapsto> Text (stringify (result_json r))),
              log := log s @ BucketGet (cacheKey_of n) #
                 map Fetch (registry_url (text_of ?a) # registry_url (text_of parentPkg) # urls) @
                 [BucketPut (cacheKey_of n) (Text (stringify (result_json r)))]\<rparr>"
            by simp
          then show ?thesis by blast
        next
          case b
          with h have "snd (handleCtanFetch w n s) =
            s\<lparr>bucket := (bucket s)(cacheKey_of n \<mapsto> Text (stringify (result_json r))),
              log := log s @ BucketGet (cacheKey_of n) #
                 map Fetch (registry_url (text_of ?a) # registry_url (text_of parentPkg) # urls @
                            registry_url (text_of ?a) # urls') @
                 [BucketPut (cacheKey_of n) (Text (stringify (result_json r)))]\<rparr>"
            by simp
          then show ?thesis by blast
        next
          case c
          with h have "snd (handleCtanFetch w n s) =
            s\<lparr>log := log s @ BucketGet (cacheKey_of n) #
                 map Fetch (registry_url (text_of ?a) # registry_url (text_of parentPkg) # urls @
                            registry_url (text_of ?a) # urls')\<rparr>"
            by simp
          then show ?thesis by blast
        qed
      qed
    qed
  qed
qed

lemma cacheKey_of_inj: "cacheKey_of a = cacheKey_of b \<longleftrightarrow> a = b"
  by (simp add: cacheKey_of_def)

subsection \<open>The cache key\<close>

text \<open>
  C10. Whatever the request, the events that \<open>handleCtanFetch\<close> adds to the log read
  and write the bucket only under \<open>ctan-cache/<CTAN_CACHE_VERSION>/<requestedPkg>.json\<close>,
  the key of the name as it was requested; the read of that key is the first event,
  ahead of the lookup that uses the alias table; no other key of the bucket changes.
  So \<open>tikz\<close> and \<open>pgf\<close> have distinct keys although both resolve to \<open>pgf\<close>.
\<close>

theorem cache_key_of_requested_name:
  "(\<exists>es. log (snd (handleCtanFetch w n s)) = log s @ es \<and>
         (\<forall>k. BucketGet k \<in> set es \<longrightarrow>
              k = ''ctan-cache/'' @ CTAN_CACHE_VERSION @ ''/'' @ n @ ''.json'') \<and>
         (\<forall>k v. BucketPut k v \<in> set es \<longrightarrow>
              k = ''ctan-cache/'' @ CTAN_CACHE_VERSION @ ''/'' @ n @ ''.json'') \<and>
         (es \<noteq> [] \<longrightarrow>
              hd es = BucketGet (''ctan-cache/'' @ CTAN_CACHE_VERSION @ ''/'' @ n @ ''.json''))) \<and>
   (\<forall>k. k \<noteq> ''ctan-cache/'' @ CTAN_CACHE_VERSION @ ''/'' @ n @ ''.json'' \<longrightarrow>
        bucket (snd (handleCtanFetch w n s)) k = bucket s k) \<and>
   ''ctan-cache/'' @ CTAN_CACHE_VERSION @ ''/'' @ ''tikz'' @ ''.json'' \<noteq>
   ''ctan-cache/'' @ CTAN_CACHE_VERSION @ ''/'' @ ''pgf'' @ ''.json'' \<and>
   alias_of ''tikz'' = alias_of ''pgf''"
proof -
  let ?key = "''ctan-cache/'' @ CTAN_CACHE_VERSION @ ''/'' @ n @ ''.json''"
  have key: "cacheKey_of n = ?key" by (simp add: cacheKey_of_def)
  from handleCtanFetch_shape [of w n s]
  consider (unchanged) "snd (handleCtanFetch w n s) = s"
    | (reads) fs where "snd (handleCtanFetch w n s) =
        s\<lparr>log := log s @ BucketGet ?key # map Fetch fs\<rparr>"
    | (writes) fs v where "snd (handleCtanFetch w n s) =
        s\<lparr>bucket := (bucket s)(?key \<mapsto> v),
          log := log s @ BucketGet ?key # map Fetch fs @ [BucketPut ?key v]\<rparr>"
    unfolding key by blast
  then have "(\<exists>es. log (snd (handleCtanFetch w n s)) = log s @ es \<and>
         (\<forall>k. BucketGet k \<in> set es \<longrightarrow> k = ?key) \<and>
         (\<forall>k v. BucketPut k v \<in> set es \<longrightarrow> k = ?key) \<and>
         (es \<noteq> [] \<longrightarrow> hd es = BucketGet ?key)) \<and>
     (\<forall>k. k \<noteq> ?key \<longrightarrow> bucket (snd (handleCtanFetch w n s)) k = bucket s k)"
  proof cases
    case unchanged
    then show ?thesis by simp
  next
    case reads
    then have "log (snd (handleCtanFetch w n s)) = log s @ (BucketGet ?key # map Fetch fs)"
      and "bucket (snd (handleCtanFetch w n s)) = bucket s"
      by simp_all
    then show ?thesis by (intro conjI exI [of _ "BucketGet ?key # map Fetch fs"]) auto
  next
    case writes
    then have "log (snd (handleCtanFetch w n s)) =
                 log s @ (BucketGet ?key # map Fetch fs @ [BucketPut ?key v])"
      and "bucket (snd (handleCtanFetch w n s)) = (bucket s)(?key \<mapsto> v)"
      by simp_all
    then show ?thesis
      by (intro conjI exI [of _ "BucketGet ?key # map Fetch fs @ [BucketPut ?key v]"]) auto
  qed
  moreover have "''ctan-cache/'' @ CTAN_CACHE_VERSION @ ''/'' @ ''tikz'' @ ''.json'' \<noteq>
                 ''ctan-cache/'' @ CTAN_CACHE_VERSION @ ''/'' @ ''pgf'' @ ''.json''"
    by simp
  moreover have "alias_of ''tikz'' = alias_of ''pgf''"
    by (simp add: alias_tikz alias_pgf)
  ultimately show ?thesis by blast
qed

lemma handleCtanFetch_tikz_pgf:
  "\<exists>v. snd (handleCtanFetch world_pgf ''tikz'' state_empty) =
     \<lparr>bucket = [''ctan-cache/v5/tikz.json'' \<mapsto> v],
      log = [BucketGet ''ctan-cache/v5/tikz.json'',
             Fetch ''https://ctan.org/json/2.0/pkg/pgf'',
             Fetch ''https://ctan.org/json/2.0/pkg/pgf'',
             Fetch ''https://mirrors.ctan.org/install/graphics/pgf/base/pgf.tds.zip'',
             BucketPut ''ctan-cache/v5/tikz.json'' v]\<rparr>"
  by (simp add: handleCtanFetch_def bad_length_def bad_characters_def lower_letters_def
        upper_letters_def digits_def bucket_get_def bucket_put_def state_empty_def
        cacheKey_of_def CTAN_CACHE_VERSION_def alias_tikz fetch_def world_pgf_def
        registry_url_def text_of_def parent_of_def ok_def reply_info_def reply_zip_def
        info_pgf_def truthy_def ctan_chain_def tryCtanTdsZip_def downloadUrl_of_def
        install_url_def caught_def processZip_def processZip_files_def processZip_entry_def
        skipped_def ext_of_def substring_from_def index_or_0_def toLowerCase_def
        texExtensions_def Let_def)

theorem cache_key_of_requested_name_witness:
  "(\<exists>v. log (snd (handleCtanFetch world_pgf ''tikz'' state_empty)) =
      [BucketGet ''ctan-cache/v5/tikz.json'',
       Fetch ''https://ctan.org/json/2.0/pkg/pgf'',
       Fetch ''https://ctan.org/json/2.0/pkg/pgf'',
       Fetch ''https://mirrors.ctan.org/install/graphics/pgf/base/pgf.tds.zip'',
       BucketPut ''ctan-cache/v5/tikz.json'' v]) \<and>
   bucket (snd (handleCtanFetch world_pgf ''tikz'' state_empty)) ''ctan-cache/v5/pgf.json'' = None"
proof -
  from handleCtanFetch_tikz_pgf obtain v where
    "snd (handleCtanFetch world_pgf ''tikz'' state_empty) =
     \<lparr>bucket = [''ctan-cache/v5/tikz.json'' \<mapsto> v],
      log = [BucketGet ''ctan-cache/v5/tikz.json'',
             Fetch ''https://ctan.org/json/2.0/pkg/pgf'',
             Fetch ''https://ctan.org/json/2.0/pkg/pgf'',
             Fetch ''https://mirrors.ctan.org/install/graphics/pgf/base/pgf.tds.zip'',
             BucketPut ''ctan-cache/v5/tikz.json'' v]\<rparr>"
    by blast
  with cache_key_of_requested_name [of world_pgf "''tikz''" state_empty] show ?thesis
    by (simp add: CTAN_CACHE_VERSION_def state_empty_def)
qed

subsection \<open>Upstream failures\<close>






subsection \<open>The order of the fallback chain\<close>





subsection \<open>Documentation and source trees\<close>

lemma split_not_Nil: "split sep t \<noteq> []"
  by (induction t) (auto split: list.splits)

lemma startsWith_dir:
  "CHR ''/'' \<notin> set d \<Longrightarrow>
   startsWith t (d @ ''/'') \<longleftrightarrow> (\<exists>xs. split (CHR ''/'') t = d # xs \<and> xs \<noteq> [])"
proof (induction d arbitrary: t)
  case Nil
  show ?case
  proof (cases t)
    case Nil
    then show ?thesis by simp
  next
    case (Cons c cs)
    then show ?thesis using split_not_Nil [of "CHR ''/''" cs]
      by (auto split: list.splits)
  qed
next
  case (Cons a d)
  then have a: "a \<noteq> CHR ''/''" and d: "CHR ''/'' \<notin> set d" by auto
  show ?case
  proof (cases t)
    case Nil
    then show ?thesis by simp
  next
    case t: (Cons c cs)
    show ?thesis
    proof (cases "c = CHR ''/''")
      case True
      with a t show ?thesis by auto
    next
      case False
      obtain x xs where s: "split (CHR ''/'') cs = x # xs"
        using split_not_Nil [of "CHR ''/''" cs] by (cases "split (CHR ''/'') cs") auto
      with False t Cons.IH [OF d, of cs] show ?thesis by auto
    qed
  qed
qed

lemma in_butlast_iff:
  "l \<noteq> [] \<Longrightarrow> d \<in> set (butlast l) \<longleftrightarrow> (hd l = d \<and> tl l \<noteq> []) \<or> d \<in> set (butlast (tl l))"
  by (cases l) auto

lemma includes_dir:
  "CHR ''/'' \<notin> set d \<Longrightarrow>
   includes_str t (''/'' @ d @ ''/'') \<longleftrightarrow> d \<in> set (butlast (tl (split (CHR ''/'') t)))"
proof (induction t)
  case Nil
  then show ?case by simp
next
  case (Cons c cs)
  obtain x xs where s: "split (CHR ''/'') cs = x # xs"
    using split_not_Nil [of "CHR ''/''" cs] by (cases "split (CHR ''/'') cs") auto
  show ?case
  proof (cases "c = CHR ''/''")
    case True
    have "includes_str (c # cs) (''/'' @ d @ ''/'') \<longleftrightarrow>
          startsWith cs (d @ ''/'') \<or> includes_str cs (''/'' @ d @ ''/'')"
      using True by simp
    also have "\<dots> \<longleftrightarrow> (\<exists>ys. split (CHR ''/'') cs = d # ys \<and> ys \<noteq> []) \<or>
                       d \<in> set (butlast (tl (split (CHR ''/'') cs)))"
      using Cons startsWith_dir [of d cs] by simp
    also have "\<dots> \<longleftrightarrow> d \<in> set (butlast (split (CHR ''/'') cs))"
      using in_butlast_iff [of "split (CHR ''/'') cs" d] s by auto
    finally show ?thesis using True by simp
  next
    case False
    with Cons s show ?thesis by simp
  qed
qed

lemma under_dir_iff:
  assumes "CHR ''/'' \<notin> set d"
  shows "includes_str t (''/'' @ d @ ''/'') \<or> startsWith t (d @ ''/'') \<longleftrightarrow>
         d \<in> set (butlast (split (CHR ''/'') t))"
proof -
  obtain x xs where s: "split (CHR ''/'') t = x # xs"
    using split_not_Nil [of "CHR ''/''" t] by (cases "split (CHR ''/'') t") auto
  show ?thesis
    using includes_dir [OF assms, of t] startsWith_dir [OF assms, of t]
          in_butlast_iff [of "split (CHR ''/'') t" d] s
    by auto
qed

lemma skipped_iff:
  "skipped filePath \<longleftrightarrow>
   ''doc'' \<in> set (butlast (split (CHR ''/'') filePath)) \<or>
   ''source'' \<in> set (butlast (split (CHR ''/'') filePath))"
  using under_dir_iff [of "''doc''" filePath] under_dir_iff [of "''source''" filePath]
  by (auto simp: skipped_def)

lemma processZip_entry_skipped:
  "skipped (fst entry) \<Longrightarrow> processZip_entry pkg acc entry = acc"
  by (simp add: processZip_entry_def Let_def)

lemma foldl_processZip_entry_filter:
  "foldl (processZip_entry pkg) acc entries =
   foldl (processZip_entry pkg) acc (filter (\<lambda>e. \<not> skipped (fst e)) entries)"
  by (induction entries arbitrary: acc) (simp_all add: processZip_entry_skipped)

lemma processZip_files_filter:
  "processZip_files entries pkg =
   processZip_files (filter (\<lambda>e. \<not> skipped (fst e)) entries) pkg"
  unfolding processZip_files_def
  by (subst foldl_processZip_entry_filter) simp

lemma processZip_files_all_skipped:
  assumes "\<forall>e \<in> set entries. skipped (fst e)"
  shows "processZip_files entries pkg = None"
proof -
  from assms have "filter (\<lambda>e. \<not> skipped (fst e)) entries = []"
    by (simp add: filter_empty_conv)
  then have "processZip_files entries pkg = processZip_files [] pkg"
    using processZip_files_filter [of entries pkg] by simp
  then show ?thesis by (simp add: processZip_files_def)
qed

lemma first_success_None:
  assumes "\<forall>zipBuffer. caught (processZip w zipBuffer pkg) = None"
  shows "fst (first_success w pkg urls s) = None"
  using assms
  by (induction urls arbitrary: s) (auto simp: fetch_def split: sum.splits)

lemma stage_None:
  assumes "\<forall>zipBuffer. caught (processZip w zipBuffer pkg) = None"
  shows "fst (stage w pkg plan s) = None"
  using first_success_None [OF assms]
  by (auto simp: stage_def fetch_def split: sum.splits)

lemma ctan_chain_not_found:
  assumes "fst (tryCtanTdsZip w parentPkg s) = None"
    and "fst (tryCtanSourceZip w pkgName (snd (tryCtanTdsZip w parentPkg s))) = None"
  shows "fst (ctan_chain w key parentPkg pkgName s) =
           jsonResponse (error_json ''Package not found'') 404 \<and>
         bucket (snd (ctan_chain w key parentPkg pkgName s)) = bucket s"
  using ctan_chain_shape [of w parentPkg s key pkgName] assms by auto

text \<open>
  C6. The decoder skips exactly the entries with a directory component \<open>doc\<close> or
  \<open>source\<close> (with or without a leading slash), and its output is the output for the
  archive without these entries. A ZIP with the two entries \<open>doc/manual.pdf\<close> and
  \<open>source/bar.dtx\<close> gives no result: \<open>processZip\<close> returns \<open>null\<close>, it does not throw. And
  when every archive that is unpacked holds only entries under \<open>doc\<close> or \<open>source\<close>,
  \<open>handleCtanFetch\<close>, on a cache miss for a valid name whose registry lookup is answered,
  returns the 404 JSON error and writes nothing to the bucket.
\<close>

theorem doc_and_source_excluded:
  "(skipped filePath \<longleftrightarrow>
      ''doc'' \<in> set (butlast (split (CHR ''/'') filePath)) \<or>
      ''source'' \<in> set (butlast (split (CHR ''/'') filePath))) \<and>
   processZip_files entries pkg =
     processZip_files (filter (\<lambda>e. \<not> skipped (fst e)) entries) pkg \<and>
   (unzipSync w zipBuffer = Inr [(''doc/manual.pdf'', a), (''source/bar.dtx'', b)] \<longrightarrow>
      processZip w zipBuffer pkg = Inr None) \<and>
   (\<not> bad_length n \<and> \<not> bad_characters n \<and> bucket s (cacheKey_of n) = None \<and>
    (\<exists>resp p. fetch_reply w (Suc (length (log s))) (registry_url (text_of (alias_of n)))
                = Inr resp \<and> parent_of resp (alias_of n) = Inr p) \<and>
    (\<forall>zip es. unzipSync w zip = Inr es \<longrightarrow> (\<forall>e \<in> set es. skipped (fst e))) \<longrightarrow>
      fst (handleCtanFetch w n s) = jsonResponse (error_json ''Package not found'') 404 \<and>
      bucket (snd (handleCtanFetch w n s)) = bucket s)"
proof (intro conjI impI)
  show "skipped filePath \<longleftrightarrow>
      ''doc'' \<in> set (butlast (split (CHR ''/'') filePath)) \<or>
      ''source'' \<in> set (butlast (split (CHR ''/'') filePath))"
    by (rule skipped_iff)
  show "processZip_files entries pkg =
     processZip_files (filter (\<lambda>e. \<not> skipped (fst e)) entries) pkg"
    by (rule processZip_files_filter)
next
  assume "unzipSync w zipBuffer = Inr [(''doc/manual.pdf'', a), (''source/bar.dtx'', b)]"
  moreover have "processZip_files [(''doc/manual.pdf'', a), (''source/bar.dtx'', b)] pkg = None"
    by (rule processZip_files_all_skipped) (simp add: skipped_def)
  ultimately show "processZip w zipBuffer pkg = Inr None"
    by (simp add: processZip_def)
next
  assume h: "\<not> bad_length n \<and> \<not> bad_characters n \<and> bucket s (cacheKey_of n) = None \<and>
    (\<exists>resp p. fetch_reply w (Suc (length (log s))) (registry_url (text_of (alias_of n)))
                = Inr resp \<and> parent_of resp (alias_of n) = Inr p) \<and>
    (\<forall>zip es. unzipSync w zip = Inr es \<longrightarrow> (\<forall>e \<in> set es. skipped (fst e)))"
  then have v: "\<not> bad_length n" "\<not> bad_characters n" and m: "bucket s (cacheKey_of n) = None"
    by simp_all
  from h obtain resp p where
    r: "fetch_reply w (Suc (length (log s))) (registry_url (text_of (alias_of n))) = Inr resp"
       "parent_of resp (alias_of n) = Inr p"
    by blast
  from h have "\<forall>zip es. unzipSync w zip = Inr es \<longrightarrow> (\<forall>e \<in> set es. skipped (fst e))"
    by simp
  then have none: "\<forall>zipBuffer. caught (processZip w zipBuffer q) = None" for q
    by (auto simp: caught_def processZip_def processZip_files_all_skipped split: sum.splits)
  let ?s2 = "s\<lparr>log := log s @ [BucketGet (cacheKey_of n),
                                   Fetch (registry_url (text_of (alias_of n)))]\<rparr>"
  have e: "handleCtanFetch w n s = ctan_chain w (cacheKey_of n) p (alias_of n) ?s2"
    by (simp add: handleCtanFetch_miss [OF v m] r)
  have "fst (tryCtanTdsZip w p ?s2) = None"
    and "fst (tryCtanSourceZip w (alias_of n) (snd (tryCtanTdsZip w p ?s2))) = None"
    by (simp_all add: tryCtanTdsZip_stage tryCtanSourceZip_stage stage_None [OF none])
  from ctan_chain_not_found [OF this, of "cacheKey_of n"] e
  show "fst (handleCtanFetch w n s) = jsonResponse (error_json ''Package not found'') 404"
    and "bucket (snd (handleCtanFetch w n s)) = bucket s"
    by simp_all
qed

theorem doc_and_source_excluded_witness:
  "skipped ''doc/manual.pdf'' \<and> skipped ''source/bar.dtx'' \<and>
   ''doc'' \<in> set (butlast (split (CHR ''/'') ''doc/manual.pdf'')) \<and>
   unzipSync world_doc_only [80, 75] =
     Inr [(''doc/manual.pdf'', [37, 80, 68, 70]), (''source/bar.dtx'', encode ''x'')] \<and>
   processZip world_doc_only [80, 75] (Str ''pgf'') = Inr None \<and>
   \<not> bad_length ''pgf'' \<and> \<not> bad_characters ''pgf'' \<and>
   bucket state_empty (cacheKey_of ''pgf'') = None \<and>
   fst (handleCtanFetch world_doc_only ''pgf'' state_empty) =
     jsonResponse (error_json ''Package not found'') 404 \<and>
   bucket (snd (handleCtanFetch world_doc_only ''pgf'' state_empty)) = bucket state_empty"
proof -
  have sk: "skipped ''doc/manual.pdf''" "skipped ''source/bar.dtx''"
    by (simp_all add: skipped_def)
  have u: "unzipSync world_doc_only zip =
     Inr [(''doc/manual.pdf'', [37, 80, 68, 70]), (''source/bar.dtx'', encode ''x'')]" for zip
    by (simp add: world_doc_only_def)
  have v: "\<not> bad_length ''pgf''" "\<not> bad_characters ''pgf''"
    by (simp_all add: bad_length_def bad_characters_def lower_letters_def)
  have m: "bucket state_empty (cacheKey_of ''pgf'') = None"
    by (simp add: state_empty_def)
  have f: "fetch_reply world_doc_only (Suc (length (log state_empty)))
             (registry_url (text_of (alias_of ''pgf''))) = Inr (reply_info info_pgf)"
    by (simp add: world_doc_only_def alias_pgf text_of_def registry_url_def)
  have p: "parent_of (reply_info info_pgf) (alias_of ''pgf'') = Inr (Str ''pgf'')"
    by (simp add: parent_of_def ok_def reply_info_def info_pgf_def truthy_def)
  have all: "\<forall>zip es. unzipSync world_doc_only zip = Inr es \<longrightarrow> (\<forall>e \<in> set es. skipped (fst e))"
    using sk by (auto simp: u)
  note T = doc_and_source_excluded
         [of "''doc/manual.pdf''" "[]" "Str ''pgf''" world_doc_only "[80, 75]"
             "[37, 80, 68, 70]" "encode ''x''" "''pgf''" state_empty]
  have d: "''doc'' \<in> set (butlast (split (CHR ''/'') ''doc/manual.pdf''))"
    by simp
  have z: "processZip world_doc_only [80, 75] (Str ''pgf'') = Inr None"
    using T [THEN conjunct2, THEN conjunct2, THEN conjunct1] u by simp
  have pre: "\<not> bad_length ''pgf'' \<and> \<not> bad_characters ''pgf'' \<and>
    bucket state_empty (cacheKey_of ''pgf'') = None \<and>
    (\<exists>resp p. fetch_reply world_doc_only (Suc (length (log state_empty)))
                 (registry_url (text_of (alias_of ''pgf''))) = Inr resp \<and>
               parent_of resp (alias_of ''pgf'') = Inr p) \<and>
    (\<forall>zip es. unzipSync world_doc_only zip = Inr es \<longrightarrow> (\<forall>e \<in> set es. skipped (fst e)))"
    using v m f p all by (intro conjI exI) assumption+
  have h: "fst (handleCtanFetch world_doc_only ''pgf'' state_empty) =
             jsonResponse (error_json ''Package not found'') 404 \<and>
           bucket (snd (handleCtanFetch world_doc_only ''pgf'' state_empty)) = bucket state_empty"
    by (rule mp [OF T [THEN conjunct2, THEN conjunct2, THEN conjunct2] pre])
  from sk d u [of "[80, 75]"] z v m h show ?thesis
    by (intro conjI) simp_all
qed

subsection \<open>Dependencies\<close>

lemma set_add_distinct: "distinct deps \<Longrightarrow> distinct (set_add deps d)"
  by (simp add: set_add_def)

lemma foldl_set_add_distinct: "distinct deps \<Longrightarrow> distinct (foldl set_add deps ds)"
  by (induction ds arbitrary: deps) (simp_all add: set_add_distinct)

lemma set_foldl_set_add: "set (foldl set_add deps ds) = set deps \<union> set ds"
  by (induction ds arbitrary: deps) (auto simp: set_add_def)

lemma scan_deps_distinct: "distinct deps \<Longrightarrow> distinct (scan_deps deps t)"
  by (simp add: scan_deps_def foldl_set_add_distinct)

lemma scan_deps_identifiers:
  "\<forall>d \<in> set deps. is_identifier d \<Longrightarrow> \<forall>d \<in> set (scan_deps deps t). is_identifier d"
  by (auto simp: scan_deps_def set_foldl_set_add deps_of_match_def)

lemma processZip_entry_deps:
  assumes "distinct (snd acc) \<and> (\<forall>d \<in> set (snd acc). is_identifier d)"
  shows "distinct (snd (processZip_entry pkg acc entry)) \<and>
         (\<forall>d \<in> set (snd (processZip_entry pkg acc entry)). is_identifier d)"
  using assms scan_deps_distinct [of "snd acc"] scan_deps_identifiers [of "snd acc"]
  by (simp add: processZip_entry_def Let_def)

lemma foldl_processZip_entry_deps:
  assumes "distinct (snd acc) \<and> (\<forall>d \<in> set (snd acc). is_identifier d)"
  shows "distinct (snd (foldl (processZip_entry pkg) acc entries)) \<and>
         (\<forall>d \<in> set (snd (foldl (processZip_entry pkg) acc entries)). is_identifier d)"
  using assms
proof (induction entries arbitrary: acc)
  case Nil
  then show ?case by simp
next
  case (Cons e entries)
  from Cons.IH [OF processZip_entry_deps [OF Cons.prems]] show ?case by simp
qed

lemma processZip_files_deps:
  assumes "processZip_files entries pkg = Some r"
  shows "distinct (dependencies r) \<and> (\<forall>d \<in> set (dependencies r). is_identifier d) \<and>
         (\<forall>d \<in> set (dependencies r). Str d \<noteq> pkg)"
proof -
  have "distinct (snd (foldl (processZip_entry pkg) ([], []) entries)) \<and>
        (\<forall>d \<in> set (snd (foldl (processZip_entry pkg) ([], []) entries)). is_identifier d)"
    by (rule foldl_processZip_entry_deps) simp
  with assms show ?thesis
    by (auto simp: processZip_files_def Let_def split: if_splits)
qed

lemma strip_prefix_startsWith: "strip_prefix p t = Some r \<Longrightarrow> startsWith t p"
  by (induction p t rule: strip_prefix.induct) (auto split: if_splits)

lemma requirePackage_at_startsWith:
  "requirePackage_at t = Some m \<Longrightarrow> startsWith t requirePackage"
  by (auto simp: requirePackage_at_def requirePackage_def split: option.splits
           dest: strip_prefix_startsWith)

lemma matchAll_no_macro:
  "\<not> includes_str t requirePackage \<Longrightarrow> matchAll_RequirePackage t = []"
proof (induction t)
  case Nil
  then show ?case by simp
next
  case (Cons c cs)
  then have "\<not> startsWith (c # cs) requirePackage" and "\<not> includes_str cs requirePackage"
    by simp_all
  with Cons.IH requirePackage_at_startsWith [of "c # cs"] show ?case
    by (cases "requirePackage_at (c # cs)") auto
qed

lemma strip_prefix_across:
  "x \<notin> set l \<Longrightarrow> strip_prefix l (a @ x # rest) = Some r \<Longrightarrow> startsWith a l"
proof (induction l arbitrary: a)
  case Nil
  then show ?case by simp
next
  case (Cons p ps)
  then show ?case by (cases a) (auto split: if_splits)
qed

lemma requirePackage_at_before:
  assumes "\<not> startsWith (c # pre) requirePackage"
  shows "requirePackage_at (c # pre @ CHR 0x5C # rest) = None"
proof (cases "strip_prefix requirePackage (c # pre @ CHR 0x5C # rest)")
  case None
  then show ?thesis by (simp add: requirePackage_at_def requirePackage_def)
next
  case (Some r)
  then have c: "c = CHR 0x5C"
    and "strip_prefix ''RequirePackage'' (pre @ CHR 0x5C # rest) = Some r"
    by (auto simp: requirePackage_def split: if_splits)
  then have "startsWith pre ''RequirePackage''"
    using strip_prefix_across [of "CHR 0x5C" "''RequirePackage''" pre rest r] by simp
  with c assms show ?thesis by (simp add: requirePackage_def)
qed

lemma requirePackage_at_example:
  "requirePackage_at (macro_example @ post) = Some (''amsmath,graphicx'', post)"
  by (simp add: requirePackage_at_def macro_example_def bracket_group_def brace_group_def)

lemma matchAll_example:
  assumes "\<not> includes_str pre requirePackage"
  shows "matchAll_RequirePackage (pre @ macro_example @ post) =
         ''amsmath,graphicx'' # matchAll_RequirePackage post"
  using assms
proof (induction pre)
  case Nil
  obtain c cs where e: "macro_example @ post = c # cs"
    by (simp add: macro_example_def)
  have "matchAll_RequirePackage (c # cs) =
        (case requirePackage_at (c # cs) of
           Some (captured, rest) \<Rightarrow> captured # matchAll_RequirePackage rest
         | None \<Rightarrow> matchAll_RequirePackage cs)"
    by (simp only: matchAll_RequirePackage.simps)
  with requirePackage_at_example [of post] e show ?case by simp
next
  case (Cons c pre)
  then have n: "\<not> startsWith (c # pre) requirePackage" and i: "\<not> includes_str pre requirePackage"
    by simp_all
  have "requirePackage_at (c # pre @ macro_example @ post) = None"
    using requirePackage_at_before [OF n] by (simp add: macro_example_def)
  with Cons.IH [OF i] show ?case by simp
qed

lemma deps_of_example: "deps_of_match ''amsmath,graphicx'' = [''amsmath'', ''graphicx'']"
  by (simp add: deps_of_match_def trim_def strip_leading.simps white_space_def is_identifier_def
                lower_letters_def upper_letters_def digits_def)

lemma scan_deps_example:
  assumes "\<not> includes_str pre requirePackage" and "\<not> includes_str post requirePackage"
  shows "scan_deps [] (pre @ macro_example @ post) = [''amsmath'', ''graphicx'']"
  by (simp add: scan_deps_def matchAll_example [OF assms(1)] matchAll_no_macro [OF assms(2)]
                deps_of_example set_add_def)

lemma processZip_entry_scan:
  "snd (processZip_entry pkg acc entry) =
     (if tex_source entry then scan_deps (snd acc) (decode (snd entry)) else snd acc)"
  by (simp add: processZip_entry_def tex_source_def Let_def)

lemma foldl_processZip_entry_scan:
  "snd (foldl (processZip_entry pkg) acc entries) =
     foldl scan_deps (snd acc) (map (\<lambda>e. decode (snd e)) (filter tex_source entries))"
  by (induction entries arbitrary: acc) (simp_all add: processZip_entry_scan)

lemma processZip_entry_files:
  "fst acc \<noteq> [] \<or> tex_source entry \<Longrightarrow> fst (processZip_entry pkg acc entry) \<noteq> []"
  by (auto simp add: processZip_entry_def tex_source_def Let_def update_nonempty)

lemma foldl_processZip_entry_files:
  "fst acc \<noteq> [] \<or> (\<exists>e \<in> set entries. tex_source e) \<Longrightarrow>
   fst (foldl (processZip_entry pkg) acc entries) \<noteq> []"
proof (induction entries arbitrary: acc)
  case Nil
  then show ?case by simp
next
  case (Cons e entries)
  show ?case
  proof (cases "fst acc \<noteq> [] \<or> tex_source e")
    case True
    from Cons.IH [OF disjI1 [OF processZip_entry_files [OF True]]] show ?thesis by simp
  next
    case False
    with Cons.prems have "\<exists>e \<in> set entries. tex_source e" by auto
    from Cons.IH [OF disjI2 [OF this]] show ?thesis by simp
  qed
qed

lemma processZip_files_dependencies:
  "processZip_files entries pkg = Some r \<Longrightarrow>
   dependencies r =
     filter (\<lambda>d. Str d \<noteq> pkg)
       (foldl scan_deps [] (map (\<lambda>e. decode (snd e)) (filter tex_source entries)))"
  by (auto simp add: processZip_files_def Let_def foldl_processZip_entry_scan split: if_splits)

lemma processZip_files_tex_source:
  assumes "\<exists>e \<in> set entries. tex_source e"
  shows "\<exists>r. processZip_files entries pkg = Some r"
  using foldl_processZip_entry_files [OF disjI2 [OF assms], of pkg "([], [])"]
  by (simp add: processZip_files_def Let_def)

lemma scan_deps_no_macro: "\<not> includes_str t requirePackage \<Longrightarrow> scan_deps deps t = deps"
  by (simp add: scan_deps_def matchAll_no_macro)

lemma foldl_scan_deps_no_macro:
  "\<forall>t \<in> set ts. \<not> includes_str t requirePackage \<Longrightarrow> foldl scan_deps deps ts = deps"
  by (induction ts arbitrary: deps) (simp_all add: scan_deps_no_macro)

lemma processZip_files_tex_single:
  assumes "\<not> skipped filePath" and "ext_of filePath \<in> set texExtensions"
  shows "\<exists>r. processZip_files [(filePath, bytes)] pkg = Some r \<and>
             dependencies r = filter (\<lambda>d. Str d \<noteq> pkg) (scan_deps [] (decode bytes))"
  using assms by (simp add: processZip_files_def processZip_entry_def Let_def)

lemma graphics_result:
  "processZip_files
        [(''tex/latex/graphics/epsfig.sty'', encode (CHR 0x5C # ''RequirePackage{graphicx}''))]
        (Str ''graphics'') =
   Some \<lparr>name = Str ''graphics'',
         files = [(''/texlive/texmf-dist/tex/latex/graphics/epsfig.sty'',
                   \<lparr>content = CHR 0x5C # ''RequirePackage{graphicx}'', encoding = ''text''\<rparr>)],
         totalFiles = 1, dependencies = [''graphicx'']\<rparr>"
proof -
  have mt: "matchAll_RequirePackage (CHR 0x5C # ''RequirePackage{graphicx}'') = [''graphicx'']"
    by (simp add: requirePackage_at_def bracket_group_def brace_group_def)
  have d: "scan_deps [] (CHR 0x5C # ''RequirePackage{graphicx}'') = [''graphicx'']"
    by (simp add: scan_deps_def mt deps_of_match_def trim_def strip_leading.simps white_space_def
                  is_identifier_def lower_letters_def upper_letters_def digits_def set_add_def
             del: matchAll_RequirePackage.simps)
  have de: "decode (encode (CHR 0x5C # ''RequirePackage{graphicx}'')) =
            CHR 0x5C # ''RequirePackage{graphicx}''"
    by (rule decode_encode) simp
  have s: "\<not> skipped ''tex/latex/graphics/epsfig.sty''"
    by (simp add: skipped_def)
  have e: "ext_of ''tex/latex/graphics/epsfig.sty'' = ''.sty''"
    by (simp add: ext_of_def substring_from_def index_or_0_def toLowerCase_def
                  upper_letters_def lower_letters_def)
  have f: "fileName_of ''tex/latex/graphics/epsfig.sty'' = ''epsfig.sty''"
    by (simp add: fileName_of_def substring_from_def)
  have t: "tex_targetDir (Str ''graphics'') ''tex/latex/graphics/epsfig.sty'' =
           ''/texlive/texmf-dist/tex/latex/graphics''"
    by (simp add: tex_targetDir_def text_of_def)
  show ?thesis
    by (simp add: processZip_files_def processZip_entry_def Let_def s e f t de d texExtensions_def
             del: matchAll_RequirePackage.simps)
qed

lemma graphics_json:
  "stringify (result_json \<lparr>name = Str ''graphics'',
         files = [(''/texlive/texmf-dist/tex/latex/graphics/epsfig.sty'',
                   \<lparr>content = CHR 0x5C # ''RequirePackage{graphicx}'', encoding = ''text''\<rparr>)],
         totalFiles = 1, dependencies = [''graphicx'']\<rparr>) =
   ''{\"name\":\"graphics\",\"files\":{\"/texlive/texmf-dist/tex/latex/graphics/epsfig.sty\":{\"content\":\"'' @ [CHR 0x5C, CHR 0x5C] @ ''RequirePackage{graphicx}\",\"encoding\":\"text\"}},\"totalFiles\":1,\"dependencies\":[\"graphicx\"]}''"
  by (simp add: result_json_def file_json_def quote_def escape_char_def toString.simps digits_def)

text \<open>
  The name that the filter drops is the one \<open>processZip\<close> is given: the parent package
  in the TDS stage. A request for \<open>graphicx\<close>, which the registry places in \<open>graphics\<close>,
  is answered with the result of \<open>graphics\<close>, and \<open>graphicx\<close> is among its dependencies.
\<close>

lemma requested_name_among_dependencies:
  "fst (handleCtanFetch world_graphics ''graphicx'' state_empty) =
     miss_response
       (''{\"name\":\"graphics\",\"files\":{\"/texlive/texmf-dist/tex/latex/graphics/epsfig.sty\":{\"content\":\"'' @
        [CHR 0x5C, CHR 0x5C] @
        ''RequirePackage{graphicx}\",\"encoding\":\"text\"}},\"totalFiles\":1,\"dependencies\":[\"graphicx\"]}'')
       ''ctan''"
proof -
  have v: "\<not> bad_length ''graphicx''" "\<not> bad_characters ''graphicx''"
    by (simp_all add: bad_length_def bad_characters_def lower_letters_def)
  have m: "bucket state_empty (cacheKey_of ''graphicx'') = None"
    by (simp add: state_empty_def)
  have a: "alias_of ''graphicx'' = Str ''graphicx''"
    by (rule alias_other) (simp_all add: object_prototype_members_def)
  have p: "parent_of (reply_info info_graphicx) (Str ''graphicx'') = Inr (Str ''graphics'')"
    by (simp add: parent_of_def ok_def reply_info_def info_graphicx_def truthy_def)
  let ?r = "\<lparr>name = Str ''graphics'',
         files = [(''/texlive/texmf-dist/tex/latex/graphics/epsfig.sty'',
                   \<lparr>content = CHR 0x5C # ''RequirePackage{graphicx}'', encoding = ''text''\<rparr>)],
         totalFiles = 1, dependencies = [''graphicx'']\<rparr>"
  let ?s2 = "state_empty\<lparr>log := log state_empty @
               [BucketGet (cacheKey_of ''graphicx''),
                Fetch (registry_url (text_of (Str ''graphicx'')))]\<rparr>"
  have t: "fst (tryCtanTdsZip world_graphics (Str ''graphics'') ?s2) = Some ?r"
    using graphics_result
    by (simp add: tryCtanTdsZip_def fetch_def world_graphics_def registry_url_def text_of_def
          state_empty_def ok_def reply_info_def reply_zip_def info_graphics_def truthy_def
          downloadUrl_of_def install_url_def caught_def processZip_def
          del: matchAll_RequirePackage.simps)
  have f: "fetch_reply world_graphics (Suc (length (log state_empty)))
             (registry_url (text_of (Str ''graphicx''))) = Inr (reply_info info_graphicx)"
    by (simp add: world_graphics_def registry_url_def text_of_def)
  have "handleCtanFetch world_graphics ''graphicx'' state_empty =
          ctan_chain world_graphics (cacheKey_of ''graphicx'') (Str ''graphics'')
            (Str ''graphicx'') ?s2"
    by (simp add: handleCtanFetch_miss [OF v m] a f p)
  moreover from ctan_chain_shape
                  [of world_graphics "Str ''graphics''" ?s2 "cacheKey_of ''graphicx''"
                      "Str ''graphicx''"] t
  have "\<exists>s'. ctan_chain world_graphics (cacheKey_of ''graphicx'') (Str ''graphics'')
               (Str ''graphicx'') ?s2 =
             (miss_response (stringify (result_json ?r)) ''ctan'', s')"
    by auto
  ultimately show ?thesis by (auto simp only: graphics_json fst_conv)
qed

text \<open>
  C4, as stated, fails. A text with the macro does not always give exactly \<open>amsmath\<close>
  and \<open>graphicx\<close>: when the package is \<open>amsmath\<close> itself the list is \<open>graphicx\<close> alone,
  and a further macro in the text adds its own names. And the name that is left out
  is not the requested one: the request for \<open>graphicx\<close> in \<open>world_graphics\<close>, where the
  registry places \<open>graphicx\<close> in \<open>graphics\<close>, is answered with the files of \<open>graphics\<close> and with \<open>graphicx\<close> as
  their dependency.
\<close>

theorem dependencies_not_exactly_two:
  "(\<exists>r. processZip_files
          [(''tex/latex/amsmath/amsmath.sty'',
            encode (CHR 0x5C # ''RequirePackage[options]{amsmath,graphicx}''))]
          (Str ''amsmath'') = Some r \<and>
        dependencies r = [''graphicx'']) \<and>
   (\<exists>r. processZip_files
          [(''tex/latex/bar/bar.sty'',
            encode (CHR 0x5C # ''RequirePackage[options]{amsmath,graphicx}'' @
                    CHR 0x5C # ''RequirePackage{tikz}''))]
          (Str ''bar'') = Some r \<and>
        dependencies r = [''amsmath'', ''graphicx'', ''tikz'']) \<and>
   rstatus (fst (handleCtanFetch world_graphics ''graphicx'' state_empty)) = 200 \<and>
   rbody (fst (handleCtanFetch world_graphics ''graphicx'' state_empty)) =
     Text (''{\"name\":\"graphics\",\"files\":{\"/texlive/texmf-dist/tex/latex/graphics/epsfig.sty\":{\"content\":\"'' @
           [CHR 0x5C, CHR 0x5C] @
           ''RequirePackage{graphicx}\",\"encoding\":\"text\"}},\"totalFiles\":1,\"dependencies\":[\"graphicx\"]}'')"
proof -
  have s1: "\<not> skipped ''tex/latex/amsmath/amsmath.sty''"
    and s2: "\<not> skipped ''tex/latex/bar/bar.sty''"
    by (simp_all add: skipped_def)
  have e1: "ext_of ''tex/latex/amsmath/amsmath.sty'' \<in> set texExtensions"
    and e2: "ext_of ''tex/latex/bar/bar.sty'' \<in> set texExtensions"
    by (simp_all add: ext_of_def substring_from_def index_or_0_def toLowerCase_def
                      upper_letters_def lower_letters_def texExtensions_def)
  have d1: "scan_deps [] (CHR 0x5C # ''RequirePackage[options]{amsmath,graphicx}'') =
            [''amsmath'', ''graphicx'']"
    using scan_deps_example [of "[]" "[]"] by (simp add: macro_example_def requirePackage_def)
  have m: "matchAll_RequirePackage (CHR 0x5C # ''RequirePackage{tikz}'') = [''tikz'']"
    by (simp add: requirePackage_at_def bracket_group_def brace_group_def)
  have t: "deps_of_match ''tikz'' = [''tikz'']"
    by (simp add: deps_of_match_def trim_def strip_leading.simps white_space_def is_identifier_def
                  lower_letters_def upper_letters_def digits_def)
  have mm: "matchAll_RequirePackage (macro_example @ CHR 0x5C # ''RequirePackage{tikz}'') =
            [''amsmath,graphicx'', ''tikz'']"
    using matchAll_example [of "[]" "CHR 0x5C # ''RequirePackage{tikz}''"]
    by (simp add: requirePackage_def m del: matchAll_RequirePackage.simps)
  have "scan_deps [] (macro_example @ CHR 0x5C # ''RequirePackage{tikz}'') =
            [''amsmath'', ''graphicx'', ''tikz'']"
    by (simp add: scan_deps_def mm deps_of_example t set_add_def
             del: matchAll_RequirePackage.simps)
  then have d2: "scan_deps [] (CHR 0x5C # ''RequirePackage[options]{amsmath,graphicx}'' @
                          CHR 0x5C # ''RequirePackage{tikz}'') =
            [''amsmath'', ''graphicx'', ''tikz'']"
    by (simp add: macro_example_def del: matchAll_RequirePackage.simps)
  have de1: "decode (encode (CHR 0x5C # ''RequirePackage[options]{amsmath,graphicx}'')) =
             CHR 0x5C # ''RequirePackage[options]{amsmath,graphicx}''"
    by (rule decode_encode) simp
  have de2: "decode (encode (CHR 0x5C # ''RequirePackage[options]{amsmath,graphicx}'' @
                             CHR 0x5C # ''RequirePackage{tikz}'')) =
             CHR 0x5C # ''RequirePackage[options]{amsmath,graphicx}'' @
             CHR 0x5C # ''RequirePackage{tikz}''"
    by (rule decode_encode) simp
  have a: "\<exists>r. processZip_files
          [(''tex/latex/amsmath/amsmath.sty'',
            encode (CHR 0x5C # ''RequirePackage[options]{amsmath,graphicx}''))]
          (Str ''amsmath'') = Some r \<and>
        dependencies r = [''graphicx'']"
    using processZip_files_tex_single
            [OF s1 e1, of "encode (CHR 0x5C # ''RequirePackage[options]{amsmath,graphicx}'')"
                          "Str ''amsmath''"]
    by (simp only: de1 d1) simp
  have b: "\<exists>r. processZip_files
          [(''tex/latex/bar/bar.sty'',
            encode (CHR 0x5C # ''RequirePackage[options]{amsmath,graphicx}'' @
                    CHR 0x5C # ''RequirePackage{tikz}''))]
          (Str ''bar'') = Some r \<and>
        dependencies r = [''amsmath'', ''graphicx'', ''tikz'']"
    using processZip_files_tex_single
            [OF s2 e2, of "encode (CHR 0x5C # ''RequirePackage[options]{amsmath,graphicx}'' @
                                   CHR 0x5C # ''RequirePackage{tikz}'')"
                          "Str ''bar''"]
    by (simp only: de2 d2) simp
  have c: "rstatus (fst (handleCtanFetch world_graphics ''graphicx'' state_empty)) = 200"
    by (simp only: requested_name_among_dependencies) (simp add: miss_response_def)
  have d: "rbody (fst (handleCtanFetch world_graphics ''graphicx'' state_empty)) =
     Text (''{\"name\":\"graphics\",\"files\":{\"/texlive/texmf-dist/tex/latex/graphics/epsfig.sty\":{\"content\":\"'' @
           [CHR 0x5C, CHR 0x5C] @
           ''RequirePackage{graphicx}\",\"encoding\":\"text\"}},\"totalFiles\":1,\"dependencies\":[\"graphicx\"]}'')"
    by (simp only: requested_name_among_dependencies) (simp add: miss_response_def)
  from a b c d show ?thesis by (intro conjI)
qed

lemma caught_processZip_files:
  "caught (processZip w zipBuffer pkg) = Some r \<Longrightarrow>
   \<exists>entries. unzipSync w zipBuffer = Inr entries \<and> processZip_files entries pkg = Some r"
  by (auto simp: caught_def processZip_def split: sum.splits)

lemma first_success_files:
  "fst (first_success w pkg urls s) = Some r \<Longrightarrow>
   \<exists>zipBuffer entries. unzipSync w zipBuffer = Inr entries \<and>
                       processZip_files entries pkg = Some r"
proof (induction urls arbitrary: s)
  case Nil
  then show ?case by simp
next
  case (Cons u urls)
  show ?case
  proof (cases "fetch_reply w (length (log s)) u")
    case (Inl e)
    with Cons.prems show ?thesis by (simp add: fetch_def)
  next
    case (Inr resp)
    show ?thesis
    proof (cases "ok resp")
      case True
      with Inr Cons.prems have "caught (processZip w (arrayBuffer resp) pkg) = Some r"
        by (simp add: fetch_def)
      from caught_processZip_files [OF this] show ?thesis by blast
    next
      case False
      with Inr Cons.prems Cons.IH show ?thesis by (simp add: fetch_def)
    qed
  qed
qed

lemma stage_files:
  "fst (stage w pkg plan s) = Some r \<Longrightarrow>
   \<exists>zipBuffer entries. unzipSync w zipBuffer = Inr entries \<and>
                       processZip_files entries pkg = Some r"
  by (auto simp: stage_def fetch_def split: sum.splits if_splits dest: first_success_files)

text \<open>
  C4, amended. The dependencies of a decoded archive are what the scan collects from
  the texts of its TeX-source files, in the order of the archive, without the package
  name that \<open>processZip\<close> was given: they have no duplicates, each matches the
  identifier pattern, and none is that name. Let one TeX-source file of the archive
  hold the macro \<open>\RequirePackage[options]{amsmath,graphicx}\<close> between two texts without
  any \<open>\RequirePackage\<close>, and no other TeX-source file hold a \<open>\RequirePackage\<close>, whatever
  else the archive holds: then the dependencies are \<open>amsmath\<close> and \<open>graphicx\<close>, in this
  order and once each, without the package name. The result of a stage is the decoding
  of an archive under the name of that stage, the parent package in the TDS stage; so
  it is this name that its dependencies never hold.
\<close>

theorem dependencies_of_requirePackage:
  "(\<forall>r. processZip_files entries pkgName = Some r \<longrightarrow>
        dependencies r =
          filter (\<lambda>d. Str d \<noteq> pkgName)
            (foldl scan_deps [] (map (\<lambda>e. decode (snd e)) (filter tex_source entries))) \<and>
        distinct (dependencies r) \<and>
        (\<forall>d \<in> set (dependencies r). is_identifier d \<and> Str d \<noteq> pkgName)) \<and>
   (entries = before @ (filePath, bytes) # after \<and> tex_source (filePath, bytes) \<and>
    decode bytes = pre @ CHR 0x5C # ''RequirePackage[options]{amsmath,graphicx}'' @ post \<and>
    \<not> includes_str pre (CHR 0x5C # ''RequirePackage'') \<and>
    \<not> includes_str post (CHR 0x5C # ''RequirePackage'') \<and>
    (\<forall>e \<in> set (before @ after).
        tex_source e \<longrightarrow> \<not> includes_str (decode (snd e)) (CHR 0x5C # ''RequirePackage'')) \<longrightarrow>
      (\<exists>r. processZip_files entries pkgName = Some r \<and>
           dependencies r = filter (\<lambda>d. Str d \<noteq> pkgName) [''amsmath'', ''graphicx''])) \<and>
   (\<forall>r. fst (tryCtanTdsZip w parentPkg s) = Some r \<longrightarrow>
        name r = parentPkg \<and>
        (\<exists>zipBuffer archive. unzipSync w zipBuffer = Inr archive \<and>
                             processZip_files archive parentPkg = Some r) \<and>
        (\<forall>d \<in> set (dependencies r). Str d \<noteq> parentPkg)) \<and>
   (\<forall>r. fst (tryCtanSourceZip w requested s) = Some r \<longrightarrow>
        name r = requested \<and>
        (\<exists>zipBuffer archive. unzipSync w zipBuffer = Inr archive \<and>
                             processZip_files archive requested = Some r) \<and>
        (\<forall>d \<in> set (dependencies r). Str d \<noteq> requested))"
proof (intro conjI impI allI)
  fix r
  assume r: "processZip_files entries pkgName = Some r"
  from processZip_files_dependencies [OF r]
  show "dependencies r =
          filter (\<lambda>d. Str d \<noteq> pkgName)
            (foldl scan_deps [] (map (\<lambda>e. decode (snd e)) (filter tex_source entries)))" .
  from processZip_files_deps [OF r]
  show "distinct (dependencies r)"
    and "\<forall>d \<in> set (dependencies r). is_identifier d \<and> Str d \<noteq> pkgName"
    by simp_all
next
  assume h: "entries = before @ (filePath, bytes) # after \<and> tex_source (filePath, bytes) \<and>
    decode bytes = pre @ CHR 0x5C # ''RequirePackage[options]{amsmath,graphicx}'' @ post \<and>
    \<not> includes_str pre (CHR 0x5C # ''RequirePackage'') \<and>
    \<not> includes_str post (CHR 0x5C # ''RequirePackage'') \<and>
    (\<forall>e \<in> set (before @ after).
        tex_source e \<longrightarrow> \<not> includes_str (decode (snd e)) (CHR 0x5C # ''RequirePackage''))"
  then have e: "entries = before @ (filePath, bytes) # after"
    and x: "tex_source (filePath, bytes)"
    and t: "decode bytes = pre @ macro_example @ post"
    and n: "\<not> includes_str pre requirePackage" "\<not> includes_str post requirePackage"
    and o: "\<forall>e \<in> set (before @ after).
              tex_source e \<longrightarrow> \<not> includes_str (decode (snd e)) requirePackage"
    by (simp_all add: macro_example_def requirePackage_def)
  from o have b: "\<forall>t \<in> set (map (\<lambda>e. decode (snd e)) (filter tex_source before)).
                    \<not> includes_str t requirePackage"
    and a: "\<forall>t \<in> set (map (\<lambda>e. decode (snd e)) (filter tex_source after)).
                    \<not> includes_str t requirePackage"
    by auto
  have "foldl scan_deps [] (map (\<lambda>e. decode (snd e)) (filter tex_source entries)) =
        [''amsmath'', ''graphicx'']"
    by (simp add: e x t foldl_scan_deps_no_macro [OF b] foldl_scan_deps_no_macro [OF a]
                  scan_deps_example [OF n] del: matchAll_RequirePackage.simps)
  moreover from e x have "\<exists>e \<in> set entries. tex_source e"
    by auto
  from processZip_files_tex_source [OF this, of pkgName]
  obtain r where r: "processZip_files entries pkgName = Some r" ..
  ultimately show "\<exists>r. processZip_files entries pkgName = Some r \<and>
           dependencies r = filter (\<lambda>d. Str d \<noteq> pkgName) [''amsmath'', ''graphicx'']"
    using processZip_files_dependencies [OF r] by auto
next
  fix r
  assume "fst (tryCtanTdsZip w parentPkg s) = Some r"
  then have g: "fst (stage w parentPkg tds_attempts s) = Some r"
    by (simp add: tryCtanTdsZip_stage)
  from stage_Some [OF g] show "name r = parentPkg" by simp
  from stage_files [OF g]
  show f: "\<exists>zipBuffer archive. unzipSync w zipBuffer = Inr archive \<and>
                             processZip_files archive parentPkg = Some r" .
  with processZip_files_deps show "\<forall>d \<in> set (dependencies r). Str d \<noteq> parentPkg"
    by blast
next
  fix r
  assume "fst (tryCtanSourceZip w requested s) = Some r"
  then have g: "fst (stage w requested source_attempts s) = Some r"
    by (simp add: tryCtanSourceZip_stage)
  from stage_Some [OF g] show "name r = requested" by simp
  from stage_files [OF g]
  show f: "\<exists>zipBuffer archive. unzipSync w zipBuffer = Inr archive \<and>
                             processZip_files archive requested = Some r" .
  with processZip_files_deps show "\<forall>d \<in> set (dependencies r). Str d \<noteq> requested"
    by blast
qed

theorem dependencies_of_requirePackage_witness:
  "tex_source (''tex/latex/bar/bar.sty'',
               encode (''% bar '' @ CHR 0x5C # ''RequirePackage[options]{amsmath,graphicx}'' @
                       '' % end'')) \<and>
   \<not> tex_source (''doc/latex/bar/README.tex'', encode (CHR 0x5C # ''RequirePackage{tikz}'')) \<and>
   \<not> tex_source (''fonts/type1/public/bar/bar.pfb'', [1, 2, 255]) \<and>
   tex_source (''tex/latex/bar/bar.cfg'', encode ''% none'') \<and>
   (\<exists>r. processZip_files
          [(''doc/latex/bar/README.tex'', encode (CHR 0x5C # ''RequirePackage{tikz}'')),
           (''tex/latex/bar/bar.sty'',
            encode (''% bar '' @ CHR 0x5C # ''RequirePackage[options]{amsmath,graphicx}'' @
                    '' % end'')),
           (''fonts/type1/public/bar/bar.pfb'', [1, 2, 255]),
           (''tex/latex/bar/bar.cfg'', encode ''% none'')]
          (Str ''bar'') = Some r \<and>
        dependencies r = [''amsmath'', ''graphicx''] \<and>
        distinct (dependencies r) \<and>
        (\<forall>d \<in> set (dependencies r). is_identifier d \<and> Str d \<noteq> Str ''bar'')) \<and>
   (\<exists>r. fst (tryCtanTdsZip world_graphics (Str ''graphics'') state_empty) = Some r \<and>
        name r = Str ''graphics'' \<and>
        (\<forall>d \<in> set (dependencies r). Str d \<noteq> Str ''graphics'')) \<and>
   (\<exists>r. fst (tryCtanSourceZip world_bar (Str ''bar'') state_empty) = Some r \<and>
        name r = Str ''bar'' \<and>
        (\<forall>d \<in> set (dependencies r). Str d \<noteq> Str ''bar''))"
proof -
  let ?sty = "(''tex/latex/bar/bar.sty'',
               encode (''% bar '' @ CHR 0x5C # ''RequirePackage[options]{amsmath,graphicx}'' @
                       '' % end''))"
  let ?doc = "(''doc/latex/bar/README.tex'', encode (CHR 0x5C # ''RequirePackage{tikz}''))"
  let ?pfb = "(''fonts/type1/public/bar/bar.pfb'', [1, 2, 255 :: byte])"
  let ?cfg = "(''tex/latex/bar/bar.cfg'', encode ''% none'')"
  have x1: "tex_source ?sty" and x4: "tex_source ?cfg"
    by (simp_all add: tex_source_def skipped_def ext_of_def substring_from_def index_or_0_def
                      toLowerCase_def upper_letters_def lower_letters_def texExtensions_def)
  have x2: "\<not> tex_source ?doc"
    by (simp add: tex_source_def skipped_def)
  have x3: "\<not> tex_source ?pfb"
    by (simp add: tex_source_def ext_of_def substring_from_def index_or_0_def
                  toLowerCase_def upper_letters_def lower_letters_def texExtensions_def)
  have d: "decode (encode (''% bar '' @ CHR 0x5C # ''RequirePackage[options]{amsmath,graphicx}'' @
                           '' % end'')) =
           ''% bar '' @ CHR 0x5C # ''RequirePackage[options]{amsmath,graphicx}'' @ '' % end''"
    by (rule decode_encode) simp
  have c: "decode (encode ''% none'') = ''% none''"
    by (rule decode_encode) simp
  have n: "\<not> includes_str ''% bar '' (CHR 0x5C # ''RequirePackage'')"
          "\<not> includes_str '' % end'' (CHR 0x5C # ''RequirePackage'')"
          "\<not> includes_str ''% none'' (CHR 0x5C # ''RequirePackage'')"
    by simp_all
  note T = dependencies_of_requirePackage
             [of "[?doc, ?sty, ?pfb, ?cfg]" "Str ''bar''" "[?doc]" "''tex/latex/bar/bar.sty''"
                 "encode (''% bar '' @ CHR 0x5C # ''RequirePackage[options]{amsmath,graphicx}'' @
                          '' % end'')"
                 "[?pfb, ?cfg]" "''% bar ''" "'' % end''" world_graphics "Str ''graphics''"
                 state_empty "Str ''graphics''"]
  note U = dependencies_of_requirePackage
             [where w = world_bar and s = state_empty and requested = "Str ''bar''"]
  have o: "\<forall>e \<in> set ([?doc] @ [?pfb, ?cfg]).
             tex_source e \<longrightarrow> \<not> includes_str (decode (snd e)) (CHR 0x5C # ''RequirePackage'')"
    using x2 x3 n(3) by (simp add: c)
  have pre: "[?doc, ?sty, ?pfb, ?cfg] =
      [?doc] @ (''tex/latex/bar/bar.sty'',
                encode (''% bar '' @ CHR 0x5C # ''RequirePackage[options]{amsmath,graphicx}'' @
                        '' % end'')) # [?pfb, ?cfg] \<and>
    tex_source ?sty \<and>
    decode (encode (''% bar '' @ CHR 0x5C # ''RequirePackage[options]{amsmath,graphicx}'' @
                    '' % end'')) =
      ''% bar '' @ CHR 0x5C # ''RequirePackage[options]{amsmath,graphicx}'' @ '' % end'' \<and>
    \<not> includes_str ''% bar '' (CHR 0x5C # ''RequirePackage'') \<and>
    \<not> includes_str '' % end'' (CHR 0x5C # ''RequirePackage'') \<and>
    (\<forall>e \<in> set ([?doc] @ [?pfb, ?cfg]).
        tex_source e \<longrightarrow> \<not> includes_str (decode (snd e)) (CHR 0x5C # ''RequirePackage''))"
    using x1 d n(1,2) o by (intro conjI) simp_all
  from mp [OF T [THEN conjunct2, THEN conjunct1] pre] obtain r where
    r: "processZip_files [?doc, ?sty, ?pfb, ?cfg] (Str ''bar'') = Some r"
       "dependencies r = filter (\<lambda>d. Str d \<noteq> Str ''bar'') [''amsmath'', ''graphicx'']"
    by blast
  have k: "distinct (dependencies r) \<and>
           (\<forall>d \<in> set (dependencies r). is_identifier d \<and> Str d \<noteq> Str ''bar'')"
    by (rule T [THEN conjunct1, rule_format, OF r(1), THEN conjunct2])
  have l: "dependencies r = [''amsmath'', ''graphicx'']"
    by (simp only: r(2)) simp
  have a: "\<exists>r. processZip_files [?doc, ?sty, ?pfb, ?cfg] (Str ''bar'') = Some r \<and>
        dependencies r = [''amsmath'', ''graphicx''] \<and>
        distinct (dependencies r) \<and>
        (\<forall>d \<in> set (dependencies r). is_identifier d \<and> Str d \<noteq> Str ''bar'')"
    using r(1) l k by (intro exI [of _ r] conjI) (assumption | erule conjunct1 | erule conjunct2)+
  have "fst (tryCtanTdsZip world_graphics (Str ''graphics'') state_empty) \<noteq> None"
    using graphics_result
    by (simp add: tryCtanTdsZip_def fetch_def world_graphics_def registry_url_def text_of_def
          state_empty_def ok_def reply_info_def reply_zip_def info_graphics_def truthy_def
          downloadUrl_of_def install_url_def caught_def processZip_def
          del: matchAll_RequirePackage.simps)
  then obtain g where g: "fst (tryCtanTdsZip world_graphics (Str ''graphics'') state_empty) = Some g"
    by auto
  note G = T [THEN conjunct2, THEN conjunct2, THEN conjunct1, rule_format, OF g]
  have b: "\<exists>r. fst (tryCtanTdsZip world_graphics (Str ''graphics'') state_empty) = Some r \<and>
        name r = Str ''graphics'' \<and>
        (\<forall>d \<in> set (dependencies r). Str d \<noteq> Str ''graphics'')"
    using g G [THEN conjunct1] G [THEN conjunct2, THEN conjunct2]
    by (intro exI [of _ g] conjI)
  have "fst (tryCtanSourceZip world_bar (Str ''bar'') state_empty) \<noteq> None"
    by (simp add: tryCtanSourceZip_def fetch_def world_bar_def registry_url_def text_of_def
          state_empty_def ok_def reply_info_def reply_zip_def info_bar_def truthy_def
          source_url_def caught_def processZip_def processZip_files_def processZip_entry_def
          skipped_def ext_of_def substring_from_def index_or_0_def toLowerCase_def
          upper_letters_def lower_letters_def texExtensions_def Let_def
          del: matchAll_RequirePackage.simps)
  then obtain q where q: "fst (tryCtanSourceZip world_bar (Str ''bar'') state_empty) = Some q"
    by auto
  note Q = U [THEN conjunct2, THEN conjunct2, THEN conjunct2, rule_format, OF q]
  have c: "\<exists>r. fst (tryCtanSourceZip world_bar (Str ''bar'') state_empty) = Some r \<and>
        name r = Str ''bar'' \<and>
        (\<forall>d \<in> set (dependencies r). Str d \<noteq> Str ''bar'')"
    using q Q [THEN conjunct1] Q [THEN conjunct2, THEN conjunct2]
    by (intro exI [of _ q] conjI)
  from x1 x2 x3 x4 a b c show ?thesis by (intro conjI)
qed

subsection \<open>The object-store cache\<close>

lemma bucket_ok_empty: "bucket_ok (\<lambda>key. None)"
  by (simp add: bucket_ok_def)

lemma bucket_ok_handleCtanFetch:
  assumes "bucket_ok (bucket s)"
  shows "bucket_ok (bucket (snd (handleCtanFetch w n s)))"
proof (cases "bad_length n \<or> bad_characters n")
  case True
  then have "snd (handleCtanFetch w n s) = s" by (auto simp: handleCtanFetch_def)
  with assms show ?thesis by simp
next
  case False
  from handleCtanFetch_shape [of w n s]
  have "bucket (snd (handleCtanFetch w n s)) = bucket s \<or>
        (\<exists>v. bucket (snd (handleCtanFetch w n s)) = (bucket s)(cacheKey_of n \<mapsto> v))"
    by auto
  with assms False show ?thesis
    by (auto simp: bucket_ok_def cacheKey_of_inj split: if_splits)
qed

lemma bucket_ok_handleTexLiveProxy:
  assumes "bucket_ok (bucket s)"
  shows "bucket_ok (bucket (snd (handleTexLiveProxy w n s)))"
proof -
  have "bucket (snd (handleTexLiveProxy w n s)) = bucket s \<or>
        (\<exists>v. bucket (snd (handleTexLiveProxy w n s)) =
               (bucket s)(''texlive-cache/'' @ n @ ''.tar.xz'' \<mapsto> v))"
    by (auto simp: handleTexLiveProxy_def bucket_get_def bucket_put_def fetch_def Let_def
             split: option.splits sum.splits)
  moreover have "cacheKey_of m \<noteq> ''texlive-cache/'' @ n @ ''.tar.xz''" for m
    by (simp add: cacheKey_of_def)
  ultimately show ?thesis
    using assms by (auto simp: bucket_ok_def)
qed

lemma bucket_ok_handleCtanPkgInfo:
  assumes "bucket_ok (bucket s)"
  shows "bucket_ok (bucket (snd (handleCtanPkgInfo w n s)))"
proof -
  have "bucket (snd (handleCtanPkgInfo w n s)) = bucket s"
    by (auto simp: handleCtanPkgInfo_def fetch_def split: sum.splits)
  with assms show ?thesis by simp
qed

text \<open>
  C5. Let the bucket be one that the worker produces (\<open>bucket_ok\<close> holds of the empty
  bucket and is kept by the three handlers). If it holds an object under
  \<open>ctan-cache/<version>/<name>.json\<close>, then \<open>handleCtanFetch\<close> for that name answers 200
  with the marker \<open>X-Cache: HIT\<close> and the text of the stored object as its body (the
  stored object itself when it is a text, as every object written by \<open>handleCtanFetch\<close>
  is); the log grows by the one bucket read, so there is no registry lookup, no
  archive fetch and no bucket write, and the bucket is unchanged.
\<close>

theorem cache_hit:
  assumes "bucket_ok (bucket s)"
    and "bucket s (''ctan-cache/'' @ CTAN_CACHE_VERSION @ ''/'' @ n @ ''.json'') = Some obj"
  shows "rstatus (fst (handleCtanFetch w n s)) = 200 \<and>
         map_of (rheaders (fst (handleCtanFetch w n s))) ''X-Cache'' = Some ''HIT'' \<and>
         rbody (fst (handleCtanFetch w n s)) = Text (text_body obj) \<and>
         (\<forall>t. obj = Text t \<longrightarrow> rbody (fst (handleCtanFetch w n s)) = obj) \<and>
         log (snd (handleCtanFetch w n s)) =
           log s @ [BucketGet (''ctan-cache/'' @ CTAN_CACHE_VERSION @ ''/'' @ n @ ''.json'')] \<and>
         bucket (snd (handleCtanFetch w n s)) = bucket s"
proof -
  have k: "cacheKey_of n = ''ctan-cache/'' @ CTAN_CACHE_VERSION @ ''/'' @ n @ ''.json''"
    by (simp add: cacheKey_of_def)
  with assms have "\<not> bad_length n" and "\<not> bad_characters n"
    by (auto simp: bucket_ok_def)
  with assms(2) show ?thesis
    by (simp add: handleCtanFetch_def bucket_get_def k text_body_def)
qed

theorem cache_hit_witness:
  "bucket_ok (bucket state_cached) \<and>
   bucket state_cached (''ctan-cache/'' @ CTAN_CACHE_VERSION @ ''/'' @ ''pgf'' @ ''.json'') = Some (Text ''{}'') \<and>
   rstatus (fst (handleCtanFetch world_down ''pgf'' state_cached)) = 200 \<and>
   map_of (rheaders (fst (handleCtanFetch world_down ''pgf'' state_cached))) ''X-Cache'' = Some ''HIT'' \<and>
   rbody (fst (handleCtanFetch world_down ''pgf'' state_cached)) = Text ''{}'' \<and>
   log (snd (handleCtanFetch world_down ''pgf'' state_cached)) = [BucketGet ''ctan-cache/v5/pgf.json''] \<and>
   bucket (snd (handleCtanFetch world_down ''pgf'' state_cached)) = bucket state_cached"
proof -
  have v: "\<not> bad_length ''pgf''" "\<not> bad_characters ''pgf''"
    by (simp_all add: bad_length_def bad_characters_def lower_letters_def)
  have "cacheKey_of n = ''ctan-cache/v5/pgf.json'' \<longleftrightarrow> n = ''pgf''" for n
    by (simp add: cacheKey_of_def CTAN_CACHE_VERSION_def)
  with v have o: "bucket_ok (bucket state_cached)"
    by (auto simp: bucket_ok_def state_cached_def split: if_splits)
  have b: "bucket state_cached (''ctan-cache/'' @ CTAN_CACHE_VERSION @ ''/'' @ ''pgf'' @ ''.json'') = Some (Text ''{}'')"
    by (simp add: state_cached_def CTAN_CACHE_VERSION_def)
  from cache_hit [OF o b, of world_down] o b show ?thesis
    by (simp add: CTAN_CACHE_VERSION_def state_cached_def text_body_def)
qed

end
